theory Spec2Isabelle
  imports Main "HOL-Library.Word" "HOL-Library.Signed_Division"
begin

unbundle bit_operations_syntax

section \<open>Columbus IPC driver: platform, faults and machine state\<close>

text \<open>
  The model follows \<^verbatim>\<open>src/IPC-driver/columbus_ipc.c\<close>.  The header
  \<^verbatim>\<open>columbus_ipc_internal.h\<close> (register offsets, \<^verbatim>\<open>A7_REQ_KEY\<close>,
  \<^verbatim>\<open>IPC_DATA_READ\<close>, \<^verbatim>\<open>IPC_END_MSG\<close>) is not part of the sources, so
  its constants are fields of the record \<open>platform\<close> and its register offsets are the
  constructors of \<open>reg\<close>.  The build switch \<^verbatim>\<open>DEBUG\<close> decides whether
  \<^verbatim>\<open>IPC_BUG(c)\<close> is \<^verbatim>\<open>BUG_ON(c)\<close> or the bare expression \<^verbatim>\<open>(c)\<close>;
  it is the field \<open>DEBUG\<close>.  Pointers and \<^verbatim>\<open>phys_addr_t\<close> are 32 bits wide
  (the driver casts pointers to \<^verbatim>\<open>u32\<close>).  Diagnostic output
  (\<^verbatim>\<open>dev_dbg\<close>, \<^verbatim>\<open>dev_err\<close>, the ownership dump) is left out.
\<close>

datatype fault =
    Bug          \<comment> \<open>an \<^verbatim>\<open>IPC_BUG\<close> assertion fired (DEBUG build)\<close>
  | OutOfModel   \<comment> \<open>the C code reads or writes outside the modelled arrays and registers\<close>
  | Spins        \<comment> \<open>a wait consumed every supplied register read without leaving\<close>

datatype ownership = ownership_free | ownership_a7 | ownership_rf | ownership_plc

datatype reg =
    A7SRPREQ nat   \<comment> \<open>\<^verbatim>\<open>A7SRP00REQ + page_num * 4\<close>\<close>
  | A7TORFIPCSET | A7TOPLCIPCSET
  | RFTOA7IPCACK | PLCTOA7IPCACK
  | A7TORFIPCCOMM | A7TORFIPCADDR | A7TORFIPCDATA0 | A7TORFIPCDATA1
  | A7TOPLCIPCCOMM | A7TOPLCIPCADDR | A7TOPLCIPCDATA0 | A7TOPLCIPCDATA1
  | A7TORFIPCFLG | A7TOPLCIPCFLG | RFTOA7IPCSTS | PLCTOA7IPCSTS

datatype event =
    IoWrite reg "32 word"      \<comment> \<open>\<^verbatim>\<open>iowrite32(value, io_base + reg)\<close>\<close>
  | InitCompletion nat         \<comment> \<open>\<^verbatim>\<open>init_completion(&ipc_irq[n].irq_done)\<close>\<close>
  | EnableIrq nat              \<comment> \<open>\<^verbatim>\<open>enable_irq(ipc_irq[n].irq_from_dsp)\<close>\<close>
  | WaitForCompletion nat
  | DisableIrq nat
  | Complete nat               \<comment> \<open>\<^verbatim>\<open>complete(&ipc_irq[n].irq_done)\<close>\<close>

record platform =
  DEBUG :: bool
  A7_REQ_KEY :: "32 word"
  IPC_DATA_READ :: "32 word"
  IPC_END_MSG :: "32 word"
  sram :: "32 word"            \<comment> \<open>\<^verbatim>\<open>columbus_ipc.sram\<close>, the virtual base address\<close>
  sram_phy :: "32 word"        \<comment> \<open>\<^verbatim>\<open>columbus_ipc.sram_phy\<close>\<close>
  arbiter :: "nat \<Rightarrow> 32 word \<Rightarrow> 32 word \<times> 32 word \<Rightarrow> 32 word"
    \<comment> \<open>the owner field the hardware stores for a page when a request word is written to
        the request register of that page, given the page, the word and (SRMSEL0, SRMSEL1)\<close>

record ipc_channel =
  magic_1 :: "32 word"
  used :: int
  partner :: int
  operation :: int
  mode :: int
  magic_2 :: "32 word"

record ipc_state =
  SRMSEL0 :: "32 word"
  SRMSEL1 :: "32 word"
  ipc_rf_channel :: "nat \<Rightarrow> ipc_channel"    \<comment> \<open>indices below 16 are the array\<close>
  ipc_plc_channel :: "nat \<Rightarrow> ipc_channel"
  shared_ram :: "32 word \<Rightarrow> 8 word"         \<comment> \<open>bytes by virtual address\<close>
  trace :: "event list"                      \<comment> \<open>calls into the kernel and the bus, oldest first\<close>

definition IPC_BUG :: "platform \<Rightarrow> bool \<Rightarrow> bool" where
  "IPC_BUG cfg c = (DEBUG cfg \<and> c)"

abbreviation (input) SHARED_RAM_PAGE_NUM :: int where "SHARED_RAM_PAGE_NUM \<equiv> 32"
abbreviation (input) COLUMBUS_IPC_SRAM_SIZE :: int where "COLUMBUS_IPC_SRAM_SIZE \<equiv> 0x8000"
abbreviation (input) COLUMBUS_IPC_PAGE_SIZE :: int where "COLUMBUS_IPC_PAGE_SIZE \<equiv> 0x400"
abbreviation (input) IPC_IRQ_CHANNEL_NUM :: int where "IPC_IRQ_CHANNEL_NUM \<equiv> 8"
abbreviation (input) A7_RF_IPC_CHANNEL_NUM :: int where "A7_RF_IPC_CHANNEL_NUM \<equiv> 16"
abbreviation (input) IPC_CHANNEL_USED :: int where "IPC_CHANNEL_USED \<equiv> 1"
abbreviation (input) IPC_CHANNEL_UNUSED :: int where "IPC_CHANNEL_UNUSED \<equiv> 0"
abbreviation (input) IPC_PARTNER_RF_DSP :: int where "IPC_PARTNER_RF_DSP \<equiv> 0"
abbreviation (input) IPC_PARTNER_PLC_DSP :: int where "IPC_PARTNER_PLC_DSP \<equiv> 1"
abbreviation (input) IPC_SEND_OPERATION :: int where "IPC_SEND_OPERATION \<equiv> 0"
abbreviation (input) IPC_RECEIVE_OPERATION :: int where "IPC_RECEIVE_OPERATION \<equiv> 1"
abbreviation (input) IPC_COMMUNICATION_INT :: int where "IPC_COMMUNICATION_INT \<equiv> 0"
abbreviation (input) IPC_COMMUNICATION_POLL :: int where "IPC_COMMUNICATION_POLL \<equiv> 1"
abbreviation (input) COLUMBUS_IPC_INVALID :: int where "COLUMBUS_IPC_INVALID \<equiv> - 1"
abbreviation (input) COLUMBUS_IPC_REQ_MAGIC_1 :: "32 word" where "COLUMBUS_IPC_REQ_MAGIC_1 \<equiv> 0x49504331"
abbreviation (input) COLUMBUS_IPC_REQ_MAGIC_2 :: "32 word" where "COLUMBUS_IPC_REQ_MAGIC_2 \<equiv> 0x49504332"
abbreviation (input) COLUMBUS_SRAM_RF_VIEW :: "32 word" where "COLUMBUS_SRAM_RF_VIEW \<equiv> 0x72600000"
abbreviation (input) COLUMBUS_SRAM_PLC_VIEW :: "32 word" where "COLUMBUS_SRAM_PLC_VIEW \<equiv> 0x61600000"
abbreviation (input) ENOSPC :: int where "ENOSPC \<equiv> 28"
abbreviation (input) ENOMEM :: int where "ENOMEM \<equiv> 12"
abbreviation (input) NULL :: "32 word" where "NULL \<equiv> 0"

definition iowrite32 :: "32 word \<Rightarrow> reg \<Rightarrow> ipc_state \<Rightarrow> ipc_state" where
  "iowrite32 v r s = s\<lparr>trace := trace s @ [IoWrite r v]\<rparr>"

section \<open>Page ownership map\<close>

definition to_ownership :: "'a::len word \<Rightarrow> ownership" where
  "to_ownership w =
     (if w = 0 then ownership_free else if w = 1 then ownership_a7
      else if w = 2 then ownership_rf else ownership_plc)"

fun ownership_val :: "ownership \<Rightarrow> 32 word" where
  "ownership_val ownership_free = 0"
| "ownership_val ownership_a7 = 1"
| "ownership_val ownership_rf = 2"
| "ownership_val ownership_plc = 3"

definition get_sram_page_ownership :: "platform \<Rightarrow> int \<Rightarrow> ipc_state \<Rightarrow> fault + ownership" where
  "get_sram_page_ownership cfg page_num s =
     (if IPC_BUG cfg (page_num < 0) \<or> IPC_BUG cfg (page_num \<ge> SHARED_RAM_PAGE_NUM) then Inl Bug
      else if page_num < 0 \<or> page_num \<ge> SHARED_RAM_PAGE_NUM then Inl OutOfModel
      else
        let srmsel = nat page_num div 16;
            bit_position = nat page_num mod 16;
            status = (if srmsel = 0 then SRMSEL0 s else SRMSEL1 s)
        in Inr (to_ownership (drop_bit (2 * bit_position) status AND 3)))"

text \<open>
  The write of a request word to \<^verbatim>\<open>A7SRP00REQ + page_num * 4\<close>.  Each page has its own
  request register, and a page changes owner only through a request written to it
  (section 3 of the spec), so the write replaces the 2-bit field of that page in the
  status registers by what the hardware decides and leaves the other fields alone.
\<close>

definition set_page_field :: "nat \<Rightarrow> 32 word \<Rightarrow> 32 word \<times> 32 word \<Rightarrow> 32 word \<times> 32 word" where
  "set_page_field page v r =
     (let sh = 2 * (page mod 16);
          upd = (\<lambda>w. (w AND NOT (push_bit sh 3)) OR push_bit sh (v AND 3))
      in if page div 16 = 0 then (upd (fst r), snd r) else (fst r, upd (snd r)))"

definition request_page :: "platform \<Rightarrow> int \<Rightarrow> ownership \<Rightarrow> ipc_state \<Rightarrow> ipc_state" where
  "request_page cfg page_num w s =
     (let request_ownership = push_bit 4 (A7_REQ_KEY cfg) OR ownership_val w;
          s1 = iowrite32 request_ownership (A7SRPREQ (nat page_num)) s;
          v = arbiter cfg (nat page_num) request_ownership (SRMSEL0 s1, SRMSEL1 s1);
          r = set_page_field (nat page_num) v (SRMSEL0 s1, SRMSEL1 s1)
      in s1\<lparr>SRMSEL0 := fst r, SRMSEL1 := snd r\<rparr>)"

text \<open>\<^verbatim>\<open>grab_one_sram_page\<close>: 1 on success, 0 otherwise.\<close>

definition grab_one_sram_page :: "platform \<Rightarrow> int \<Rightarrow> ipc_state \<Rightarrow> fault + (int \<times> ipc_state)" where
  "grab_one_sram_page cfg page_num s =
     (case get_sram_page_ownership cfg page_num s of
        Inl e \<Rightarrow> Inl e
      | Inr status \<Rightarrow>
          if status \<noteq> ownership_free then Inr (0, s)
          else
            let s1 = request_page cfg page_num ownership_a7 s in
            (case get_sram_page_ownership cfg page_num s1 of
               Inl e \<Rightarrow> Inl e
             | Inr status1 \<Rightarrow> if status1 \<noteq> ownership_a7 then Inr (0, s1) else Inr (1, s1)))"

definition release_one_sram_page :: "platform \<Rightarrow> int \<Rightarrow> ipc_state \<Rightarrow> fault + ipc_state" where
  "release_one_sram_page cfg page_num s =
     (case get_sram_page_ownership cfg page_num s of
        Inl e \<Rightarrow> Inl e
      | Inr status \<Rightarrow>
          if IPC_BUG cfg (status \<noteq> ownership_a7) then Inl Bug
          else
            let s1 = request_page cfg page_num ownership_free s in
            (case get_sram_page_ownership cfg page_num s1 of
               Inl e \<Rightarrow> Inl e
             | Inr status1 \<Rightarrow> if IPC_BUG cfg (status1 \<noteq> ownership_free) then Inl Bug else Inr s1))"

section \<open>Page allocator\<close>

definition sram_ownership_status :: "ipc_state \<Rightarrow> 64 word" where
  "sram_ownership_status s = push_bit 32 (ucast (SRMSEL1 s)) OR ucast (SRMSEL0 s)"

text \<open>
  The scan of \<^verbatim>\<open>find_consecutive_free_sram_pages\<close>, from page \<open>i\<close> with the
  current \<open>count\<close> and \<open>start\<close>; the result is the pair (count, start) on leaving the loop.
\<close>

function find_loop :: "64 word \<Rightarrow> int \<Rightarrow> nat \<Rightarrow> int \<Rightarrow> int \<Rightarrow> int \<times> int" where
  "find_loop st npages i count start =
     (if i < 32 then
        (if to_ownership (drop_bit (i * 2) st AND 3) = ownership_free then
           (let count1 = count + 1;
                start1 = (if start = -1 then int i else start)
            in if count1 \<ge> npages then (count1, start1)
               else find_loop st npages (Suc i) count1 start1)
         else find_loop st npages (Suc i) 0 (-1))
      else (count, start))"
  by pat_completeness auto
termination
  by (relation "measure (\<lambda>(st, npages, i, count, start). 32 - i)") auto

declare find_loop.simps [simp del]

text \<open>Result \<open>Some start\<close> is "return 1 with *page_num = start", \<open>None\<close> is "return 0".\<close>

definition find_consecutive_free_sram_pages :: "platform \<Rightarrow> int \<Rightarrow> ipc_state \<Rightarrow> fault + int option" where
  "find_consecutive_free_sram_pages cfg npages s =
     (case find_loop (sram_ownership_status s) npages 0 0 (-1) of
        (count, start) \<Rightarrow>
          if count = npages then
            (if IPC_BUG cfg (start = -1) \<or> IPC_BUG cfg (start > 32 - count) then Inl Bug
             else Inr (Some start))
          else Inr None)"

text \<open>
  The grab loop of \<^verbatim>\<open>try_to_grab_sram_pages\<close>: the value of \<open>i\<close> on leaving the
  loop, and the state.
\<close>

function grab_loop :: "platform \<Rightarrow> int \<Rightarrow> int \<Rightarrow> int \<Rightarrow> ipc_state \<Rightarrow> fault + (int \<times> ipc_state)" where
  "grab_loop cfg page_num npages i s =
     (if i < npages then
        (case grab_one_sram_page cfg (page_num + i) s of
           Inl e \<Rightarrow> Inl e
         | Inr (grab, s1) \<Rightarrow>
             if grab = 0 then Inr (i, s1) else grab_loop cfg page_num npages (i + 1) s1)
      else Inr (i, s))"
  by pat_completeness auto
termination
  by (relation "measure (\<lambda>(cfg, page_num, npages, i, s). nat (npages - i))") auto

declare grab_loop.simps [simp del]

definition try_to_grab_sram_pages :: "platform \<Rightarrow> int \<Rightarrow> int \<Rightarrow> ipc_state \<Rightarrow> fault + (int \<times> ipc_state)" where
  "try_to_grab_sram_pages cfg page_num npages s =
     (case (if page_num = -1 then find_consecutive_free_sram_pages cfg npages s
            else Inr (Some page_num)) of
        Inl e \<Rightarrow> Inl e
      | Inr None \<Rightarrow> Inr (-1, s)
      | Inr (Some page_num1) \<Rightarrow>
          (case grab_loop cfg page_num1 npages 0 s of
             Inl e \<Rightarrow> Inl e
           | Inr (i, s1) \<Rightarrow> if i = npages then Inr (page_num1, s1) else Inr (-1, s1)))"

function free_sram_pages_loop :: "platform \<Rightarrow> int \<Rightarrow> int \<Rightarrow> int \<Rightarrow> ipc_state \<Rightarrow> fault + ipc_state" where
  "free_sram_pages_loop cfg page_num npages i s =
     (if i < npages then
        (case release_one_sram_page cfg (page_num + i) s of
           Inl e \<Rightarrow> Inl e
         | Inr s1 \<Rightarrow> free_sram_pages_loop cfg page_num npages (i + 1) s1)
      else Inr s)"
  by pat_completeness auto
termination
  by (relation "measure (\<lambda>(cfg, page_num, npages, i, s). nat (npages - i))") auto

declare free_sram_pages_loop.simps [simp del]

definition free_sram_pages :: "platform \<Rightarrow> int \<Rightarrow> int \<Rightarrow> ipc_state \<Rightarrow> fault + ipc_state" where
  "free_sram_pages cfg page_num npages s = free_sram_pages_loop cfg page_num npages 0 s"

text \<open>
  \<^verbatim>\<open>ipc_sram_alloc\<close>.  Addresses are 32-bit pointers, \<open>NULL\<close> is 0; the result is the
  returned pointer and the state.  \<open>sdiv\<close> and \<open>smod\<close> are C's truncating \<^verbatim>\<open>/\<close> and
  \<^verbatim>\<open>%\<close>; a pointer difference is the signed reading of the 32-bit difference.
\<close>

definition ptr_diff :: "32 word \<Rightarrow> 32 word \<Rightarrow> int" where
  "ptr_diff a b = sint (a - b)"

definition pages_for :: "int \<Rightarrow> int" where
  "pages_for size' = (let npages = size' sdiv COLUMBUS_IPC_PAGE_SIZE
                     in if size' smod COLUMBUS_IPC_PAGE_SIZE \<noteq> 0 then npages + 1 else npages)"

definition ipc_sram_alloc :: "platform \<Rightarrow> 32 word \<Rightarrow> int \<Rightarrow> ipc_state \<Rightarrow> fault + (32 word \<times> ipc_state)" where
  "ipc_sram_alloc cfg addr size' s =
     (if size' \<le> 0 then Inr (NULL, s)
      else if size' > COLUMBUS_IPC_SRAM_SIZE then Inr (NULL, s)
      else if addr AND (0x400 - 1) \<noteq> 0 then Inr (NULL, s)
      else
        let npages = pages_for size' in
        if addr \<noteq> NULL \<and> (addr < sram cfg \<or> addr \<ge> sram cfg + 0x8000) then Inr (NULL, s)
        else if addr \<noteq> NULL \<and> IPC_BUG cfg (ptr_diff addr (sram cfg) smod COLUMBUS_IPC_PAGE_SIZE \<noteq> 0)
          then Inl Bug
        else
          let page_num = (if addr \<noteq> NULL then ptr_diff addr (sram cfg) sdiv COLUMBUS_IPC_PAGE_SIZE
                          else - 1)
          in (case try_to_grab_sram_pages cfg page_num npages s of
                Inl e \<Rightarrow> Inl e
              | Inr (page_num1, s1) \<Rightarrow>
                  if page_num1 \<noteq> - 1
                  then Inr (sram cfg + word_of_int (page_num1 * COLUMBUS_IPC_PAGE_SIZE), s1)
                  else Inr (NULL, s1)))"

definition ipc_sram_free :: "platform \<Rightarrow> 32 word \<Rightarrow> int \<Rightarrow> ipc_state \<Rightarrow> fault + ipc_state" where
  "ipc_sram_free cfg addr size' s =
     (if IPC_BUG cfg (size' \<le> 0) \<or> IPC_BUG cfg (size' > COLUMBUS_IPC_SRAM_SIZE)
         \<or> IPC_BUG cfg (addr = NULL)
         \<or> IPC_BUG cfg (addr AND (0x400 - 1) \<noteq> 0)
         \<or> IPC_BUG cfg (addr < sram cfg \<or> addr \<ge> sram cfg + 0x8000)
         \<or> IPC_BUG cfg (ptr_diff addr (sram cfg) smod COLUMBUS_IPC_PAGE_SIZE \<noteq> 0)
      then Inl Bug
      else
        let page_num = ptr_diff addr (sram cfg) sdiv COLUMBUS_IPC_PAGE_SIZE;
            npages = pages_for size'
        in free_sram_pages cfg page_num npages s)"

section \<open>Channel table\<close>

text \<open>
  A channel handle is a pointer to an element of one of the two static arrays: the
  array and the index.  \<open>None\<close> is the \<^verbatim>\<open>NULL\<close> handle.
\<close>

datatype table = RF_TABLE | PLC_TABLE

type_synonym channel_handle = "table \<times> nat"

definition channels_of :: "ipc_state \<Rightarrow> table \<Rightarrow> nat \<Rightarrow> ipc_channel" where
  "channels_of s t = (case t of RF_TABLE \<Rightarrow> ipc_rf_channel s | PLC_TABLE \<Rightarrow> ipc_plc_channel s)"

definition channels_update :: "table \<Rightarrow> (nat \<Rightarrow> ipc_channel) \<Rightarrow> ipc_state \<Rightarrow> ipc_state" where
  "channels_update t chs s =
     (case t of RF_TABLE \<Rightarrow> s\<lparr>ipc_rf_channel := chs\<rparr> | PLC_TABLE \<Rightarrow> s\<lparr>ipc_plc_channel := chs\<rparr>)"

text \<open>The scan of \<^verbatim>\<open>get_free_channel\<close> from index \<open>i\<close>.\<close>

function scan_free_channel ::
  "(nat \<Rightarrow> ipc_channel) \<Rightarrow> int \<Rightarrow> nat \<Rightarrow> fault + (nat option \<times> (nat \<Rightarrow> ipc_channel))" where
  "scan_free_channel channels max_channel i =
     (if int i < max_channel then
        (if int i \<ge> A7_RF_IPC_CHANNEL_NUM then Inl OutOfModel
         else if used (channels i) = IPC_CHANNEL_UNUSED
           then Inr (Some i, channels(i := (channels i)\<lparr>used := IPC_CHANNEL_USED\<rparr>))
         else scan_free_channel channels max_channel (Suc i))
      else Inr (None, channels))"
  by pat_completeness auto
termination
  by (relation "measure (\<lambda>(channels, max_channel, i). nat (max_channel - int i))") auto

declare scan_free_channel.simps [simp del]

definition get_free_channel ::
  "platform \<Rightarrow> (nat \<Rightarrow> ipc_channel) \<Rightarrow> int \<Rightarrow> int \<Rightarrow> fault + (nat option \<times> (nat \<Rightarrow> ipc_channel))" where
  "get_free_channel cfg channels max_channel appointed_channel =
     (if IPC_BUG cfg (max_channel > A7_RF_IPC_CHANNEL_NUM)
         \<or> IPC_BUG cfg (appointed_channel \<noteq> COLUMBUS_IPC_INVALID \<and> appointed_channel \<ge> max_channel)
         \<or> IPC_BUG cfg (appointed_channel < COLUMBUS_IPC_INVALID)
      then Inl Bug
      else if appointed_channel \<noteq> COLUMBUS_IPC_INVALID then
        (if appointed_channel < 0 \<or> appointed_channel \<ge> A7_RF_IPC_CHANNEL_NUM then Inl OutOfModel
         else
           let a = nat appointed_channel in
           if used (channels a) = IPC_CHANNEL_UNUSED
           then Inr (Some a, channels(a := (channels a)\<lparr>used := IPC_CHANNEL_USED\<rparr>))
           else Inr (None, channels))
      else scan_free_channel channels max_channel 0)"

definition set_ipc_channel :: "ipc_channel \<Rightarrow> int \<Rightarrow> int \<Rightarrow> int \<Rightarrow> ipc_channel" where
  "set_ipc_channel channel partner' operation' mode' =
     channel\<lparr>magic_1 := COLUMBUS_IPC_REQ_MAGIC_1, mode := mode', operation := operation',
             partner := partner', magic_2 := COLUMBUS_IPC_REQ_MAGIC_2\<rparr>"

definition clear_ipc_channel :: "ipc_channel \<Rightarrow> ipc_channel" where
  "clear_ipc_channel channel =
     channel\<lparr>used := IPC_CHANNEL_UNUSED, mode := COLUMBUS_IPC_INVALID,
             operation := COLUMBUS_IPC_INVALID, partner := COLUMBUS_IPC_INVALID,
             magic_1 := - 1, magic_2 := - 1\<rparr>"

text \<open>\<^verbatim>\<open>get_lock\<close> and \<^verbatim>\<open>get_channels\<close> pick the mutex and the array of a partner.\<close>

definition get_lock :: "platform \<Rightarrow> int \<Rightarrow> fault + table" where
  "get_lock cfg partner' =
     (if partner' = IPC_PARTNER_RF_DSP then Inr RF_TABLE
      else if IPC_BUG cfg (partner' \<noteq> IPC_PARTNER_PLC_DSP) then Inl Bug
      else Inr PLC_TABLE)"

definition get_channels :: "platform \<Rightarrow> int \<Rightarrow> fault + table" where
  "get_channels cfg partner' =
     (if partner' = IPC_PARTNER_RF_DSP then Inr RF_TABLE
      else if IPC_BUG cfg (partner' \<noteq> IPC_PARTNER_PLC_DSP) then Inl Bug
      else Inr PLC_TABLE)"

definition get_max_channel :: "platform \<Rightarrow> int \<Rightarrow> int \<Rightarrow> fault + int" where
  "get_max_channel cfg operation' mode' =
     (if mode' = IPC_COMMUNICATION_INT then Inr IPC_IRQ_CHANNEL_NUM
      else if IPC_BUG cfg (mode' \<noteq> IPC_COMMUNICATION_POLL) then Inl Bug
      else Inr A7_RF_IPC_CHANNEL_NUM)"

definition columbus_ipc_get_channel ::
  "platform \<Rightarrow> int \<Rightarrow> int \<Rightarrow> int \<Rightarrow> int \<Rightarrow> ipc_state \<Rightarrow> fault + (channel_handle option \<times> ipc_state)" where
  "columbus_ipc_get_channel cfg partner' operation' mode' appointed_channel s =
     (if IPC_BUG cfg (partner' \<noteq> IPC_PARTNER_RF_DSP \<and> partner' \<noteq> IPC_PARTNER_PLC_DSP)
         \<or> IPC_BUG cfg (operation' \<noteq> IPC_SEND_OPERATION \<and> operation' \<noteq> IPC_RECEIVE_OPERATION)
         \<or> IPC_BUG cfg (mode' \<noteq> IPC_COMMUNICATION_INT \<and> mode' \<noteq> IPC_COMMUNICATION_POLL)
      then Inl Bug
      else
        (case get_lock cfg partner' of Inl e \<Rightarrow> Inl e | Inr plock \<Rightarrow>
        (case get_channels cfg partner' of Inl e \<Rightarrow> Inl e | Inr t \<Rightarrow>
        (case get_max_channel cfg operation' mode' of Inl e \<Rightarrow> Inl e | Inr max_channel \<Rightarrow>
        (case get_free_channel cfg (channels_of s t) max_channel appointed_channel of
           Inl e \<Rightarrow> Inl e
         | Inr (None, chs) \<Rightarrow> Inr (None, s)
         | Inr (Some i, chs) \<Rightarrow>
             Inr (Some (t, i),
                  channels_update t (chs(i := set_ipc_channel (chs i) partner' operation' mode')) s))))))"

definition columbus_ipc_put_channel :: "platform \<Rightarrow> channel_handle \<Rightarrow> ipc_state \<Rightarrow> fault + ipc_state" where
  "columbus_ipc_put_channel cfg channel s =
     (case channel of (t, i) \<Rightarrow>
        if int i \<ge> A7_RF_IPC_CHANNEL_NUM then Inl OutOfModel
        else
          let channel_2 = channels_of s t i in
          if IPC_BUG cfg (magic_1 channel_2 \<noteq> COLUMBUS_IPC_REQ_MAGIC_1)
             \<or> IPC_BUG cfg (magic_2 channel_2 \<noteq> COLUMBUS_IPC_REQ_MAGIC_2)
             \<or> IPC_BUG cfg (used channel_2 \<noteq> IPC_CHANNEL_USED)
             \<or> IPC_BUG cfg (partner channel_2 \<noteq> IPC_PARTNER_RF_DSP
                              \<and> partner channel_2 \<noteq> IPC_PARTNER_PLC_DSP)
             \<or> IPC_BUG cfg (operation channel_2 \<noteq> IPC_SEND_OPERATION
                              \<and> operation channel_2 \<noteq> IPC_RECEIVE_OPERATION)
             \<or> IPC_BUG cfg (mode channel_2 \<noteq> IPC_COMMUNICATION_INT
                              \<and> mode channel_2 \<noteq> IPC_COMMUNICATION_POLL)
          then Inl Bug
          else
            (case get_lock cfg (partner channel_2) of Inl e \<Rightarrow> Inl e | Inr plock \<Rightarrow>
            (case get_max_channel cfg (operation channel_2) (mode channel_2) of
               Inl e \<Rightarrow> Inl e
             | Inr max_channel \<Rightarrow>
                 Inr (channels_update t ((channels_of s t)(i := clear_ipc_channel channel_2)) s))))"

text \<open>
  \<^verbatim>\<open>channel2num\<close> subtracts the base of the array chosen by the slot's partner field
  from the handle.  When the handle points into the other array the difference depends
  on where the linker put the arrays: it lies outside \<open>[0, max_channel)\<close>, so a DEBUG
  build stops, and the model has no value for the other build.
\<close>

definition channel2num :: "platform \<Rightarrow> channel_handle \<Rightarrow> ipc_state \<Rightarrow> fault + int" where
  "channel2num cfg channel s =
     (case channel of (t, i) \<Rightarrow>
        if int i \<ge> A7_RF_IPC_CHANNEL_NUM then Inl OutOfModel
        else
          let channel_2 = channels_of s t i in
          (case get_channels cfg (partner channel_2) of Inl e \<Rightarrow> Inl e | Inr channels \<Rightarrow>
          (case get_max_channel cfg (operation channel_2) (mode channel_2) of
             Inl e \<Rightarrow> Inl e
           | Inr max_channel \<Rightarrow>
               if channels \<noteq> t then (if DEBUG cfg then Inl Bug else Inl OutOfModel)
               else if IPC_BUG cfg (int i \<ge> max_channel) then Inl Bug
               else Inr (int i))))"

section \<open>Transfer protocol\<close>

definition notify_partner :: "platform \<Rightarrow> channel_handle \<Rightarrow> ipc_state \<Rightarrow> fault + ipc_state" where
  "notify_partner cfg channel s =
     (case channel2num cfg channel s of
        Inl e \<Rightarrow> Inl e
      | Inr channel_num \<Rightarrow>
          let channel_2 = channels_of s (fst channel) (snd channel);
              channel_set = push_bit (nat channel_num) (1 :: 32 word)
          in if partner channel_2 = IPC_PARTNER_RF_DSP
             then Inr (iowrite32 channel_set A7TORFIPCSET s)
             else Inr (iowrite32 channel_set A7TOPLCIPCSET s))"

definition pagenum2pageaddr :: "platform \<Rightarrow> int \<Rightarrow> 32 word" where
  "pagenum2pageaddr cfg page_num =
     (if page_num = - 1 then NULL
      else sram cfg + word_of_int (page_num * COLUMBUS_IPC_PAGE_SIZE))"

definition pageaddr2pagenum :: "platform \<Rightarrow> 32 word \<Rightarrow> fault + int" where
  "pageaddr2pagenum cfg page_addr =
     (if IPC_BUG cfg (page_addr mod 0x400 \<noteq> 0)
         \<or> IPC_BUG cfg (page_addr < sram cfg)
         \<or> IPC_BUG cfg (page_addr \<ge> sram cfg + 0x8000)
      then Inl Bug
      else Inr (ptr_diff page_addr (sram cfg) sdiv COLUMBUS_IPC_PAGE_SIZE))"

definition is_valid_address :: "platform \<Rightarrow> channel_handle \<Rightarrow> 32 word \<Rightarrow> ipc_state \<Rightarrow> fault + int" where
  "is_valid_address cfg channel address s =
     (let channel_2 = channels_of s (fst channel) (snd channel);
          view = (if partner channel_2 = IPC_PARTNER_RF_DSP then COLUMBUS_SRAM_RF_VIEW
                  else COLUMBUS_SRAM_PLC_VIEW)
      in if address \<ge> view \<and> address < view + 0x8000
         then (if IPC_BUG cfg (address mod 0x400 \<noteq> 0) then Inl Bug else Inr 1)
         else Inr 0)"

definition address_from_a7_view :: "platform \<Rightarrow> channel_handle \<Rightarrow> 32 word \<Rightarrow> ipc_state \<Rightarrow> 32 word" where
  "address_from_a7_view cfg channel address s =
     (let channel_2 = channels_of s (fst channel) (snd channel);
          offset = (if partner channel_2 = IPC_PARTNER_RF_DSP then address - COLUMBUS_SRAM_RF_VIEW
                    else address - COLUMBUS_SRAM_PLC_VIEW)
      in sram_phy cfg + offset)"

definition phy2vir :: "platform \<Rightarrow> 32 word \<Rightarrow> fault + 32 word" where
  "phy2vir cfg address =
     (if IPC_BUG cfg (address < sram_phy cfg \<or> address \<ge> sram_phy cfg + 0x8000) then Inl Bug
      else Inr (sram cfg + (address - sram_phy cfg)))"

text \<open>
  \<^verbatim>\<open>memset\<close>/\<^verbatim>\<open>memcpy\<close> into, and \<^verbatim>\<open>memcpy\<close> out of, the byte memory.
  \<open>in_sram cfg a n\<close>: the \<open>n\<close> bytes from address \<open>a\<close> lie in the 32 KiB mapped
  at \<^verbatim>\<open>columbus_ipc.sram\<close>; an access outside that mapping faults.
\<close>

definition in_sram :: "platform \<Rightarrow> 32 word \<Rightarrow> nat \<Rightarrow> bool" where
  "in_sram cfg a n = (n = 0 \<or> unat (a - sram cfg) + n \<le> 0x8000)"

definition write_bytes :: "32 word \<Rightarrow> 8 word list \<Rightarrow> (32 word \<Rightarrow> 8 word) \<Rightarrow> 32 word \<Rightarrow> 8 word" where
  "write_bytes dst bytes mem =
     (\<lambda>a. if unat (a - dst) < length bytes then bytes ! unat (a - dst) else mem a)"

definition read_bytes :: "32 word \<Rightarrow> nat \<Rightarrow> (32 word \<Rightarrow> 8 word) \<Rightarrow> 8 word list" where
  "read_bytes src n mem = map (\<lambda>k. mem (src + word_of_nat k)) [0..<n]"

text \<open>
  The busy-wait of \<^verbatim>\<open>columbus_ipc_send_message\<close>:
  \<^verbatim>\<open>while (ipc_flag) { ipc_flag = ioread32(io_base + flag_offset); cond_resched(); }\<close>.
  \<open>reads\<close> are the values the flag register returns, in order; the result is the
  reads left over when the loop is left, \<open>None\<close> when the loop is still running after
  the last of them.
\<close>

fun wait_flag_clear :: "32 word \<Rightarrow> 32 word list \<Rightarrow> 32 word list option" where
  "wait_flag_clear ipc_flag [] = (if ipc_flag \<noteq> 0 then None else Some [])"
| "wait_flag_clear ipc_flag (r # rs) =
     (if ipc_flag \<noteq> 0 then wait_flag_clear r rs else Some (r # rs))"

definition columbus_ipc_send_message ::
  "platform \<Rightarrow> channel_handle \<Rightarrow> 8 word list \<Rightarrow> 32 word \<Rightarrow> int \<Rightarrow> 32 word list \<Rightarrow> ipc_state
   \<Rightarrow> fault + (int \<times> ipc_state)" where
  "columbus_ipc_send_message cfg channel message len page_num flag_reads s =
     (case channel2num cfg channel s of Inl e \<Rightarrow> Inl e | Inr channel_num \<Rightarrow>
        if len = 0 then Inr (0, s)
        else
         (case ipc_sram_alloc cfg (pagenum2pageaddr cfg page_num) (sint len) s of
            Inl e \<Rightarrow> Inl e
          | Inr (sram', s1) \<Rightarrow>
            if sram' = NULL then Inr (- ENOSPC, s1)
            else
             (case pageaddr2pagenum cfg sram' of Inl e \<Rightarrow> Inl e | Inr page_num1 \<Rightarrow>
                if unat len > length message then Inl OutOfModel
                else
                  let mem1 = write_bytes sram' (replicate (unat len) 0) (shared_ram s1);
                      mem2 = write_bytes sram' (take (unat len) message) mem1;
                      s2 = s1\<lparr>shared_ram := mem2\<rparr>;
                      channel_2 = channels_of s2 (fst channel) (snd channel);
                      rf = (partner channel_2 = IPC_PARTNER_RF_DSP);
                      s3 = iowrite32 (IPC_DATA_READ cfg)
                             (if rf then A7TORFIPCCOMM else A7TOPLCIPCCOMM) s2;
                      s4 = iowrite32 (sram_phy cfg + word_of_int (page_num1 * COLUMBUS_IPC_PAGE_SIZE))
                             (if rf then A7TORFIPCADDR else A7TOPLCIPCADDR) s3;
                      s5 = iowrite32 len (if rf then A7TORFIPCDATA0 else A7TOPLCIPCDATA0) s4;
                      s6 = iowrite32 (word_of_int page_num1 OR push_bit 16 (IPC_END_MSG cfg))
                             (if rf then A7TORFIPCDATA1 else A7TOPLCIPCDATA1) s5;
                      ack_offset = (if rf then RFTOA7IPCACK else PLCTOA7IPCACK)
                  in
                   (case notify_partner cfg channel s6 of Inl e \<Rightarrow> Inl e | Inr s7 \<Rightarrow>
                   (case wait_flag_clear (push_bit (nat channel_num) 1) flag_reads of
                      None \<Rightarrow> Inl Spins
                    | Some rest \<Rightarrow>
                        let s8 = iowrite32 (push_bit (nat channel_num) 1) ack_offset s7 in
                        (case ipc_sram_free cfg (pagenum2pageaddr cfg page_num1) (sint len) s8 of
                           Inl e \<Rightarrow> Inl e
                         | Inr s9 \<Rightarrow> Inr (sint len, s9)))))))"

text \<open>
  The poll of \<^verbatim>\<open>columbus_ipc_receive_message\<close>:
  \<^verbatim>\<open>do { ipc_status = ioread32(...STS); } while ((ipc_status & (1 << channel_num)) == 0);\<close>
\<close>

fun poll_status :: "nat \<Rightarrow> 32 word list \<Rightarrow> 32 word list option" where
  "poll_status channel_num [] = None"
| "poll_status channel_num (ipc_status # rs) =
     (if ipc_status AND push_bit channel_num 1 = 0 then poll_status channel_num rs else Some rs)"

text \<open>
  What the partner and the kernel supply to one call of
  \<^verbatim>\<open>columbus_ipc_receive_message\<close>: the values of the status register while polling,
  whether the completion is ever signalled, the four header registers, and whether
  \<^verbatim>\<open>kmalloc\<close> succeeds.  A byte of a buffer that was never written is \<open>None\<close>.
\<close>

record recv_input =
  sts_reads :: "32 word list"
  irq_completes :: bool
  command :: "32 word"
  address :: "32 word"
  data0 :: "32 word"
  data1 :: "32 word"
  kmalloc_ok :: bool

datatype msg_buf =
    Indeterminate                   \<comment> \<open>the local \<^verbatim>\<open>msg_buf\<close> was never assigned\<close>
  | Buffer "8 word option list"

definition receive_wait ::
  "platform \<Rightarrow> channel_handle \<Rightarrow> int \<Rightarrow> recv_input \<Rightarrow> ipc_state \<Rightarrow> fault + ipc_state" where
  "receive_wait cfg channel channel_num inp s =
     (let channel_2 = channels_of s (fst channel) (snd channel);
          s1 = iowrite32 (push_bit (nat channel_num) 1)
                 (if partner channel_2 = IPC_PARTNER_RF_DSP then RFTOA7IPCACK else PLCTOA7IPCACK) s
      in
        if mode channel_2 = IPC_COMMUNICATION_INT then
          (let offset = (if partner channel_2 = IPC_PARTNER_PLC_DSP then IPC_IRQ_CHANNEL_NUM else 0);
               n = channel_num + offset
           in if n < 0 \<or> n \<ge> IPC_IRQ_CHANNEL_NUM + IPC_IRQ_CHANNEL_NUM then Inl OutOfModel
              else if \<not> irq_completes inp then Inl Spins
              else Inr (s1\<lparr>trace := trace s1 @ [InitCompletion (nat n), EnableIrq (nat n),
                                                  WaitForCompletion (nat n), DisableIrq (nat n)]\<rparr>))
        else if IPC_BUG cfg (mode channel_2 \<noteq> IPC_COMMUNICATION_POLL) then Inl Bug
        else (case poll_status (nat channel_num) (sts_reads inp) of
                None \<Rightarrow> Inl Spins
              | Some rest \<Rightarrow> Inr s1))"

text \<open>
  \<^verbatim>\<open>columbus_ipc_receive_message\<close>: \<open>receive_wait\<close> is its first half (the acknowledgment
  and the wait for the partner), the rest reads the header and copies.  The result is the
  return value, the out-parameters \<^verbatim>\<open>(*message, *len)\<close> when they were written, and
  the state.
\<close>

definition columbus_ipc_receive_message ::
  "platform \<Rightarrow> channel_handle \<Rightarrow> recv_input \<Rightarrow> ipc_state
   \<Rightarrow> fault + (int \<times> (msg_buf \<times> 32 word) option \<times> ipc_state)" where
  "columbus_ipc_receive_message cfg channel inp s =
     (case channel2num cfg channel s of Inl e \<Rightarrow> Inl e | Inr channel_num \<Rightarrow>
        (case receive_wait cfg channel channel_num inp s of Inl e \<Rightarrow> Inl e | Inr s2 \<Rightarrow>
           if command inp = IPC_DATA_READ cfg then
             (case is_valid_address cfg channel (address inp) s2 of Inl e \<Rightarrow> Inl e | Inr valid \<Rightarrow>
                if IPC_BUG cfg (valid = 0) then Inl Bug
                else
                  let msg_addr_from_a7_view = address_from_a7_view cfg channel (address inp) s2 in
                  (case phy2vir cfg msg_addr_from_a7_view of Inl e \<Rightarrow> Inl e | Inr msg \<Rightarrow>
                     if IPC_BUG cfg (data0 inp > 0x8000) then Inl Bug
                     else if \<not> kmalloc_ok inp then Inr (- ENOMEM, None, s2)
                     else
                       let msg_buf = replicate (unat (data0 inp)) None in
                       if drop_bit 16 (data1 inp) = IPC_END_MSG cfg then
                         (if \<not> in_sram cfg msg (unat (data0 inp)) then Inl OutOfModel
                          else
                            let msg_buf1 = map Some (read_bytes msg (unat (data0 inp)) (shared_ram s2))
                            in Inr (sint (data0 inp), Some (Buffer msg_buf1, data0 inp), s2))
                       else Inr (sint (data0 inp), Some (Buffer msg_buf, data0 inp), s2)))
           else Inr (sint (data0 inp), Some (Indeterminate, data0 inp), s2)))"

section \<open>Interrupt handler\<close>

definition columbus_ipc_irq_handler :: "platform \<Rightarrow> int \<Rightarrow> ipc_state \<Rightarrow> fault + ipc_state" where
  "columbus_ipc_irq_handler cfg int_channel_num s =
     (if IPC_BUG cfg (int_channel_num < 0)
         \<or> IPC_BUG cfg (int_channel_num \<ge> IPC_IRQ_CHANNEL_NUM + IPC_IRQ_CHANNEL_NUM)
      then Inl Bug
      else if int_channel_num < 0 \<or> int_channel_num \<ge> IPC_IRQ_CHANNEL_NUM + IPC_IRQ_CHANNEL_NUM
      then Inl OutOfModel
      else
        let rf = (int_channel_num < IPC_IRQ_CHANNEL_NUM);
            channel_num = (if rf then int_channel_num else int_channel_num - IPC_IRQ_CHANNEL_NUM);
            channel = (if rf then ipc_rf_channel s (nat channel_num)
                       else ipc_plc_channel s (nat channel_num));
            ack_offset = (if rf then RFTOA7IPCACK else PLCTOA7IPCACK)
        in
        if IPC_BUG cfg (partner channel \<noteq> (if rf then IPC_PARTNER_RF_DSP else IPC_PARTNER_PLC_DSP))
           \<or> IPC_BUG cfg (used channel \<noteq> IPC_CHANNEL_USED)
           \<or> IPC_BUG cfg (mode channel \<noteq> IPC_COMMUNICATION_INT)
           \<or> (operation channel \<noteq> IPC_SEND_OPERATION
               \<and> IPC_BUG cfg (operation channel \<noteq> IPC_RECEIVE_OPERATION))
        then Inl Bug
        else
          let s1 = s\<lparr>trace := trace s @ [Complete (nat int_channel_num)]\<rparr>
          in Inr (iowrite32 (push_bit (nat channel_num) 1) ack_offset s1))"

section \<open>Specification vocabulary\<close>

text \<open>
  The 2-bit field of a page in the register pair, and the owner it encodes: the decoding
  of \<^verbatim>\<open>get_sram_page_ownership\<close> without its range assertions.
\<close>

definition page_field :: "32 word \<times> 32 word \<Rightarrow> nat \<Rightarrow> 32 word" where
  "page_field r p = drop_bit (2 * (p mod 16)) (if p div 16 = 0 then fst r else snd r) AND 3"

definition owner_of :: "ipc_state \<Rightarrow> nat \<Rightarrow> ownership" where
  "owner_of s p = to_ownership (page_field (SRMSEL0 s, SRMSEL1 s) p)"

text \<open>Pages \<open>start, ..., start + n - 1\<close> exist and \<^verbatim>\<open>get_sram_page_ownership\<close> reports each free.\<close>

definition free_run :: "platform \<Rightarrow> ipc_state \<Rightarrow> nat \<Rightarrow> nat \<Rightarrow> bool" where
  "free_run cfg s start n =
     (start + n \<le> 32 \<and>
      (\<forall>i\<in>{0..<n}. get_sram_page_ownership cfg (int (start + i)) s = Inr ownership_free))"

text \<open>The page test of the scan in \<^verbatim>\<open>find_consecutive_free_sram_pages\<close>, and a run of it.\<close>

definition fr :: "64 word \<Rightarrow> nat \<Rightarrow> bool" where
  "fr st j = (to_ownership (drop_bit (j * 2) st AND 3) = ownership_free)"

definition run64 :: "64 word \<Rightarrow> nat \<Rightarrow> nat \<Rightarrow> bool" where
  "run64 st a n = (\<forall>j<n. fr st (a + j))"

text \<open>
  Modelled from the spec: the hardware behind the request registers \<^verbatim>\<open>A7SRPnnREQ\<close> is
  not in the sources.  The unit test assumes that only the A7 manipulates the shared RAM:
  \<open>ideal_arbiter\<close> is that hardware, it stores the two low bits of every request word.
  \<open>grab_only_arbiter\<close> is hardware that performs the requests for an owner and ignores
  the requests to free a page; \<open>deaf_arbiter\<close> ignores every request (the page is
  contended and the A7 loses).
\<close>

definition ideal_arbiter :: "nat \<Rightarrow> 32 word \<Rightarrow> 32 word \<times> 32 word \<Rightarrow> 32 word" where
  "ideal_arbiter page req r = req AND 3"

definition grab_only_arbiter :: "nat \<Rightarrow> 32 word \<Rightarrow> 32 word \<times> 32 word \<Rightarrow> 32 word" where
  "grab_only_arbiter page req r = (if req AND 3 = 0 then page_field r page else req AND 3)"

definition deaf_arbiter :: "nat \<Rightarrow> 32 word \<Rightarrow> 32 word \<times> 32 word \<Rightarrow> 32 word" where
  "deaf_arbiter page req r = page_field r page"

text \<open>
  The loop of \<^verbatim>\<open>unittest_sram_operation\<close> that grabs the pages marked in its table:
  \<^verbatim>\<open>IPC_UNITTEST_ASSERT((grab_one_sram_page(i) == 1))\<close> for each of them.
\<close>

fun grab_each :: "platform \<Rightarrow> int list \<Rightarrow> ipc_state \<Rightarrow> fault + ipc_state" where
  "grab_each cfg [] s = Inr s"
| "grab_each cfg (i # is) s =
     (case grab_one_sram_page cfg i s of
        Inl e \<Rightarrow> Inl e
      | Inr (grab, s1) \<Rightarrow> if grab = 1 then grab_each cfg is s1 else Inl Bug)"

text \<open>
  The sequence of C2: grab a page, release it, read its owner.  The result is the return
  value of the grab and the owner read at the end.
\<close>

definition grab_then_release :: "platform \<Rightarrow> int \<Rightarrow> ipc_state \<Rightarrow> fault + (int \<times> ownership)" where
  "grab_then_release cfg p s =
     (case grab_one_sram_page cfg p s of
        Inl e \<Rightarrow> Inl e
      | Inr (grab, s1) \<Rightarrow>
          (case release_one_sram_page cfg p s1 of
             Inl e \<Rightarrow> Inl e
           | Inr s2 \<Rightarrow>
               (case get_sram_page_ownership cfg p s2 of
                  Inl e \<Rightarrow> Inl e
                | Inr status \<Rightarrow> Inr (grab, status))))"

text \<open>
  A concrete machine for the examples: a DEBUG build on the ideal arbiter, every page
  free, both channel tables zero as static storage is.  The values of the constants of
  the missing header are examples.
\<close>

definition example_platform :: platform where
  "example_platform =
     \<lparr>DEBUG = True, A7_REQ_KEY = 0xA, IPC_DATA_READ = 1, IPC_END_MSG = 0xFF,
      sram = 0xC8800000, sram_phy = 0x20000000, arbiter = ideal_arbiter\<rparr>"

definition zero_channel :: ipc_channel where
  "zero_channel = \<lparr>magic_1 = 0, used = 0, partner = 0, operation = 0, mode = 0, magic_2 = 0\<rparr>"

definition boot_state :: ipc_state where
  "boot_state =
     \<lparr>SRMSEL0 = 0, SRMSEL1 = 0, ipc_rf_channel = (\<lambda>i. zero_channel),
      ipc_plc_channel = (\<lambda>i. zero_channel), shared_ram = (\<lambda>a. 0), trace = []\<rparr>"

definition slot_used :: "ipc_state \<Rightarrow> channel_handle \<Rightarrow> bool" where
  "slot_used s h = (used (channels_of s (fst h) (snd h)) = IPC_CHANNEL_USED)"

definition max_of_mode :: "int \<Rightarrow> int" where
  "max_of_mode mode' = (if mode' = IPC_COMMUNICATION_INT then IPC_IRQ_CHANNEL_NUM else A7_RF_IPC_CHANNEL_NUM)"

definition table_of_partner :: "int \<Rightarrow> table" where
  "table_of_partner partner' = (if partner' = IPC_PARTNER_RF_DSP then RF_TABLE else PLC_TABLE)"

datatype call = Get int int int int | Put channel_handle

fun run_calls ::
  "platform \<Rightarrow> call list \<Rightarrow> ipc_state \<times> channel_handle list \<Rightarrow> fault + (ipc_state \<times> channel_handle list)" where
  "run_calls cfg [] sl = Inr sl"
| "run_calls cfg (Get p ope m a # cs) (s, live) =
     (case columbus_ipc_get_channel cfg p ope m a s of
        Inl e \<Rightarrow> Inl e
      | Inr (None, s') \<Rightarrow> run_calls cfg cs (s', live)
      | Inr (Some h, s') \<Rightarrow> run_calls cfg cs (s', live @ [h]))"
| "run_calls cfg (Put h # cs) (s, live) =
     (case columbus_ipc_put_channel cfg h s of
        Inl e \<Rightarrow> Inl e
      | Inr s' \<Rightarrow> run_calls cfg cs (s', remove1 h live))"

definition args_ok :: "int \<Rightarrow> int \<Rightarrow> int \<Rightarrow> int \<Rightarrow> bool" where
  "args_ok p ope m a =
     ((p = IPC_PARTNER_RF_DSP \<or> p = IPC_PARTNER_PLC_DSP)
      \<and> (ope = IPC_SEND_OPERATION \<or> ope = IPC_RECEIVE_OPERATION)
      \<and> (m = IPC_COMMUNICATION_INT \<or> m = IPC_COMMUNICATION_POLL)
      \<and> (a = COLUMBUS_IPC_INVALID \<or> (0 \<le> a \<and> a < max_of_mode m)))"

definition example_channel_state :: ipc_state where
  "example_channel_state =
     (case columbus_ipc_get_channel example_platform IPC_PARTNER_RF_DSP IPC_SEND_OPERATION
             IPC_COMMUNICATION_POLL COLUMBUS_IPC_INVALID boot_state of
        Inr (h, s) \<Rightarrow> s
      | Inl e \<Rightarrow> boot_state)"

definition example_irq_state :: ipc_state where
  "example_irq_state =
     (case columbus_ipc_get_channel example_platform IPC_PARTNER_RF_DSP IPC_SEND_OPERATION
             IPC_COMMUNICATION_INT COLUMBUS_IPC_INVALID boot_state of
        Inr (h, s) \<Rightarrow> s
      | Inl e \<Rightarrow> boot_state)"

definition irq_slot_ok :: "ipc_state \<Rightarrow> int \<Rightarrow> bool" where
  "irq_slot_ok s int_channel_num =
     (let channel = (if int_channel_num < 8 then ipc_rf_channel s (nat int_channel_num)
                     else ipc_plc_channel s (nat (int_channel_num - 8)))
      in partner channel = (if int_channel_num < 8 then IPC_PARTNER_RF_DSP else IPC_PARTNER_PLC_DSP)
         \<and> used channel = IPC_CHANNEL_USED
         \<and> mode channel = IPC_COMMUNICATION_INT
         \<and> (operation channel = IPC_SEND_OPERATION \<or> operation channel = IPC_RECEIVE_OPERATION))"

definition irq_effect :: "int \<Rightarrow> ipc_state \<Rightarrow> ipc_state" where
  "irq_effect int_channel_num s =
     s\<lparr>trace := trace s @
          [Complete (nat int_channel_num),
           IoWrite (if int_channel_num < 8 then RFTOA7IPCACK else PLCTOA7IPCACK)
                   (push_bit (nat (if int_channel_num < 8 then int_channel_num
                                   else int_channel_num - 8)) 1)]\<rparr>"

definition example_recv_state :: ipc_state where
  "example_recv_state =
     (case columbus_ipc_get_channel example_platform IPC_PARTNER_RF_DSP IPC_RECEIVE_OPERATION
             IPC_COMMUNICATION_POLL COLUMBUS_IPC_INVALID boot_state of
        Inr (h, s) \<Rightarrow> s
      | Inl e \<Rightarrow> boot_state)"

definition example_recv_input :: recv_input where
  "example_recv_input =
     \<lparr>sts_reads = [1], irq_completes = False, command = 1, address = 0x72600000,
      data0 = 4, data1 = 0xFF0000, kmalloc_ok = False\<rparr>"



section \<open>Word-level facts about the ownership registers\<close>



lemma and3: "(w::'a::len word) AND 3 = take_bit 2 w"
proof -
  have "(3::'a word) = mask 2" by (simp add: mask_eq_exp_minus_1)
  then show ?thesis by (simp add: take_bit_eq_mask)
qed

lemma f64_lo: "i < 16 \<Longrightarrow> drop_bit (2*i) (push_bit 32 (ucast (r1::32 word)) OR ucast (r0::32 word) :: 64 word) AND 3 = ucast (drop_bit (2*i) r0 AND 3)"
  unfolding and3
  apply (rule bit_eqI)
  apply (auto simp: bit_simps dest: bit_imp_le_length)
  done

lemma f64_hi: "j < 16 \<Longrightarrow> drop_bit (32 + 2*j) (push_bit 32 (ucast (r1::32 word)) OR ucast (r0::32 word) :: 64 word) AND 3 = ucast (drop_bit (2*j) r1 AND 3)"
  unfolding and3
  apply (rule bit_eqI)
  apply (auto simp: bit_simps dest: bit_imp_le_length)
  done

lemma to_ownership_ucast: "to_ownership (ucast (w::32 word) :: 64 word) = to_ownership w"
proof -
  have "(ucast w :: 64 word) = ucast (v::32 word) \<longleftrightarrow> w = v" for v
    by (simp add: word_eq_iff_unsigned[where ?'a=nat] unsigned_ucast_eq take_bit_nat_eq_self unsigned_less[THEN less_trans])
  from this[of 0] this[of 1] this[of 2] show ?thesis
    by (simp add: to_ownership_def)
qed

lemma get_sram_page_ownership_eq:
  "p < 32 \<Longrightarrow> get_sram_page_ownership cfg (int p) s = Inr (owner_of s p)"
  by (simp add: get_sram_page_ownership_def IPC_BUG_def owner_of_def page_field_def Let_def)

lemma status64_eq:
  assumes "p < 32"
  shows "to_ownership (drop_bit (p * 2) (sram_ownership_status s) AND 3) = owner_of s p"
proof (cases "p < 16")
  case True
  then show ?thesis
    using f64_lo[of p "SRMSEL1 s" "SRMSEL0 s"]
    by (simp add: sram_ownership_status_def owner_of_def page_field_def to_ownership_ucast mult.commute)
next
  case False
  then obtain j where j: "p = 16 + j" "j < 16" using assms
    by (metis add_diff_inverse_nat add_less_cancel_left numeral_Bit0 not_less)
  then have "p div 16 = 1" "p mod 16 = j" by simp_all
  then show ?thesis
    using f64_hi[of j "SRMSEL1 s" "SRMSEL0 s"] j
    by (simp add: sram_ownership_status_def owner_of_def page_field_def to_ownership_ucast mult.commute)
qed



lemma run64_ext:
  assumes "\<forall>a. a + n \<le> i \<longrightarrow> \<not> run64 st a n" and "1 \<le> n"
    and "\<And>a. a + n = Suc i \<Longrightarrow> \<exists>j<n. \<not> fr st (a + j)"
  shows "\<forall>a. a + n \<le> Suc i \<longrightarrow> \<not> run64 st a n"
proof (intro allI impI)
  fix a assume a: "a + n \<le> Suc i"
  show "\<not> run64 st a n"
  proof (cases "a + n \<le> i")
    case True then show ?thesis using assms(1) by blast
  next
    case False
    then have "a + n = Suc i" using a by simp
    from assms(3)[OF this] show ?thesis unfolding run64_def by blast
  qed
qed

lemma find_loop_inv:
  assumes "find_loop st (int n) i (int c) start = (cnt, res)"
    and "1 \<le> n" and "i \<le> 32" and "c \<le> i" and "c < n"
    and "start = (if c = 0 then -1 else int (i - c))"
    and "\<forall>j. i - c \<le> j \<and> j < i \<longrightarrow> fr st j"
    and "c < i \<longrightarrow> \<not> fr st (i - c - 1)"
    and "\<forall>a. a + n \<le> i \<longrightarrow> \<not> run64 st a n"
  shows "(cnt = int n \<longrightarrow> 0 \<le> res \<and> nat res + n \<le> 32 \<and> run64 st (nat res) n \<and> (\<forall>a. a < nat res \<longrightarrow>  \<not> run64 st a n))
       \<and> (cnt \<noteq> int n \<longrightarrow> (\<forall>a. a + n \<le> 32 \<longrightarrow> \<not> run64 st a n))"
  using assms
proof (induction "32 - i" arbitrary: i c start)
  case 0
  then have i: "i = 32" by simp
  have "\<not> i < 32" using i by simp
  with 0(2) have "cnt = int c" "res = start"
    unfolding find_loop.simps[of st "int n" i "int c" start] by simp_all
  with 0(6,10) i show ?case by simp
next
  case (Suc k)
  then have i: "i < 32" by simp
  have k: "k = 32 - Suc i" using Suc.hyps(2) by simp
  show ?case
  proof (cases "fr st i")
    case False
    then have eq: "find_loop st (int n) (Suc i) (int 0) (-1) = (cnt, res)"
      using Suc.prems(1) i by (simp add: find_loop.simps[of st "int n" i "int c" start] fr_def)
    have I4: "\<forall>a. a + n \<le> Suc i \<longrightarrow> \<not> run64 st a n"
    proof (rule run64_ext[OF Suc.prems(9) Suc.prems(2)])
      fix a assume "a + n = Suc i"
      then have "a + (n - 1) = i" "n - 1 < n" using Suc.prems(2) by simp_all
      then show "\<exists>j<n. \<not> fr st (a + j)" using False by blast
    qed
    show ?thesis
    proof (rule Suc.hyps(1)[OF k eq Suc.prems(2)])
      show "Suc i \<le> 32" using i by simp
      show "0 \<le> Suc i" by simp
      show "0 < n" using Suc.prems(2) by simp
      show "- 1 = (if (0::nat) = 0 then - 1 else int (Suc i - 0))" by simp
      show "\<forall>j. Suc i - 0 \<le> j \<and> j < Suc i \<longrightarrow> fr st j" by auto
      show "0 < Suc i \<longrightarrow> \<not> fr st (Suc i - 0 - 1)" using False by simp
      show "\<forall>a. a + n \<le> Suc i \<longrightarrow> \<not> run64 st a n" by (rule I4)
    qed
  next
    case True
    let ?s1 = "int (i - c)"
    have s1: "(if start = -1 then int i else start) = ?s1"
      using Suc.prems(4,6) by auto
    show ?thesis
    proof (cases "Suc c = n")
      case T: True
      then have "cnt = int n" "res = ?s1"
        using Suc.prems(1) i True s1
        by (simp_all add: find_loop.simps[of st "int n" i "int c" start] fr_def Let_def)
      moreover have "run64 st (i - c) n"
        unfolding run64_def
      proof (intro allI impI)
        fix j assume "j < n"
        then have "i - c + j = i \<or> (i - c \<le> i - c + j \<and> i - c + j < i)"
          using T Suc.prems(4) by auto
        then show "fr st (i - c + j)" using True Suc.prems(7) by metis
      qed
      moreover have "\<forall>a. a < i - c \<longrightarrow>  \<not> run64 st a n"
      proof (intro allI impI)
        fix a assume "a < i - c"
        then have "a + n \<le> i" using T by simp
        then show "\<not> run64 st a n" using Suc.prems(9) by blast
      qed
      moreover have "i - c + n \<le> 32" using T i Suc.prems(4) by auto
      ultimately show ?thesis by simp
    next
      case F: False
      then have lt: "Suc c < n" using Suc.prems(5) by simp
      have eq: "find_loop st (int n) (Suc i) (int (Suc c)) ?s1 = (cnt, res)"
        using Suc.prems(1) i True s1 lt
        by (simp add: find_loop.simps[of st "int n" i "int c" start] fr_def Let_def add.commute)
      have I4: "\<forall>a. a + n \<le> Suc i \<longrightarrow> \<not> run64 st a n"
      proof (rule run64_ext[OF Suc.prems(9) Suc.prems(2)])
        fix a assume an: "a + n = Suc i"
        then have ci: "c < i" and "a + (i - c - 1 - a) = i - c - 1" and "i - c - 1 - a < n"
          using lt by auto
        then show "\<exists>j<n. \<not> fr st (a + j)" using Suc.prems(8) by metis
      qed
      show ?thesis
      proof (rule Suc.hyps(1)[OF k eq Suc.prems(2)])
        show "Suc i \<le> 32" using i by simp
        show "Suc c \<le> Suc i" using Suc.prems(4) by simp
        show "Suc c < n" by (rule lt)
        show "?s1 = (if Suc c = 0 then - 1 else int (Suc i - Suc c))" by simp
        show "\<forall>j. Suc i - Suc c \<le> j \<and> j < Suc i \<longrightarrow> fr st j"
          using Suc.prems(7) True by (auto simp: less_Suc_eq)
        show "Suc c < Suc i \<longrightarrow> \<not> fr st (Suc i - Suc c - 1)" using Suc.prems(8) by simp
        show "\<forall>a. a + n \<le> Suc i \<longrightarrow> \<not> run64 st a n" by (rule I4)
      qed
    qed
  qed
qed


lemma page_free_iff:
  "p < 32 \<Longrightarrow>
   (get_sram_page_ownership cfg (int p) s = Inr ownership_free) = fr (sram_ownership_status s) p"
  by (simp add: fr_def status64_eq get_sram_page_ownership_eq)

lemma free_run_iff:
  "free_run cfg s a n \<longleftrightarrow> a + n \<le> 32 \<and> run64 (sram_ownership_status s) a n"
proof (cases "a + n \<le> 32")
  case True
  have "(get_sram_page_ownership cfg (int (a + i)) s = Inr ownership_free)
        = fr (sram_ownership_status s) (a + i)" if "i < n" for i
    by (rule page_free_iff) (use that True in simp)
  then show ?thesis
    unfolding free_run_def run64_def using True by (meson atLeastLessThan_iff le0)
next
  case False
  then show ?thesis by (simp add: free_run_def)
qed

lemma find_consecutive_general:
  assumes "1 \<le> n" and "n \<le> 32"
  shows "(\<exists>start. find_consecutive_free_sram_pages cfg (int n) s = Inr (Some (int start))
             \<and> free_run cfg s start n \<and> (\<forall>a. a < start \<longrightarrow>  \<not> free_run cfg s a n))
       \<or> (find_consecutive_free_sram_pages cfg (int n) s = Inr None
             \<and> (\<forall>a. \<not> free_run cfg s a n))"
proof -
  let ?st = "sram_ownership_status s"
  obtain cnt res where fl: "find_loop ?st (int n) 0 (int 0) (- 1) = (cnt, res)"
    by (cases "find_loop ?st (int n) 0 (int 0) (- 1)") auto
  have inv: "(cnt = int n \<longrightarrow> 0 \<le> res \<and> nat res + n \<le> 32 \<and> run64 ?st (nat res) n
                 \<and> (\<forall>a. a < nat res \<longrightarrow>  \<not> run64 ?st a n))
           \<and> (cnt \<noteq> int n \<longrightarrow> (\<forall>a. a + n \<le> 32 \<longrightarrow> \<not> run64 ?st a n))"
  proof (rule find_loop_inv[OF fl assms(1)])
    show "\<forall>a. a + n \<le> 0 \<longrightarrow> \<not> run64 ?st a n"
      using assms(1) by simp
  qed (use assms in auto)
  show ?thesis
  proof (cases "cnt = int n")
    case True
    with inv have r: "0 \<le> res" "nat res + n \<le> 32" "run64 ?st (nat res) n"
      "\<forall>a. a < nat res \<longrightarrow>  \<not> run64 ?st a n" by simp_all
    then have "res \<noteq> - 1" "\<not> res > 32 - cnt" using True by auto
    then have "find_consecutive_free_sram_pages cfg (int n) s = Inr (Some (int (nat res)))"
      using fl True r(1) by (simp add: find_consecutive_free_sram_pages_def IPC_BUG_def)
    moreover have "free_run cfg s (nat res) n" using r by (simp add: free_run_iff)
    moreover have "\<forall>a. a < nat res \<longrightarrow>  \<not> free_run cfg s a n" using r by (simp add: free_run_iff)
    ultimately show ?thesis by blast
  next
    case False
    with inv have "\<forall>a. a + n \<le> 32 \<longrightarrow> \<not> run64 ?st a n" by simp
    then have "\<forall>a. \<not> free_run cfg s a n" by (simp add: free_run_iff)
    moreover have "find_consecutive_free_sram_pages cfg (int n) s = Inr None"
      using fl False by (simp add: find_consecutive_free_sram_pages_def)
    ultimately show ?thesis by blast
  qed
qed

lemma req_low_bits:
  "(push_bit 4 (k::32 word) OR ownership_val w) AND 3 = ownership_val w"
  unfolding and3
  by (cases w; rule bit_eqI) (auto simp: bit_simps and3)

lemma ideal_arbiter_low_bits:
  "ideal_arbiter p (push_bit 4 k OR ownership_val w) r = ownership_val w"
  by (simp add: ideal_arbiter_def req_low_bits)

lemma request_page_ideal:
  "arbiter cfg = ideal_arbiter \<Longrightarrow>
   request_page cfg p w s =
     (let r = set_page_field (nat p) (ownership_val w) (SRMSEL0 s, SRMSEL1 s)
      in s\<lparr>trace := trace s @ [IoWrite (A7SRPREQ (nat p)) (push_bit 4 (A7_REQ_KEY cfg) OR ownership_val w)],
           SRMSEL0 := fst r, SRMSEL1 := snd r\<rparr>)"
  by (simp add: request_page_def iowrite32_def Let_def ideal_arbiter_low_bits)

section \<open>The claims\<close>

text \<open>
  C1.  For every content of the ownership registers and every \<open>n\<close> from 1 to 32,
  \<^verbatim>\<open>find_consecutive_free_sram_pages(n)\<close> either succeeds with the lowest start of a
  run of \<open>n\<close> consecutive free pages, or returns 0 and no such run exists.  On the
  unit test's table (pages 2, 6, 11, 17 and 24 grabbed, the others free) it finds start
  18 for 6 pages; once page 24 is freed it finds start 18 for 14 pages and nothing for 15.
\<close>

theorem find_consecutive_free_sram_pages_lowest_run:
  "(1 \<le> n \<and> n \<le> 32 \<longrightarrow>
      (\<exists>start. find_consecutive_free_sram_pages cfg (int n) s = Inr (Some (int start))
                \<and> free_run cfg s start n \<and> (\<forall>a. a < start \<longrightarrow> \<not> free_run cfg s a n))
      \<or> (find_consecutive_free_sram_pages cfg (int n) s = Inr None
          \<and> (\<forall>a. \<not> free_run cfg s a n)))
   \<and> (\<exists>s1 s2.
         grab_each (cfg\<lparr>arbiter := ideal_arbiter\<rparr>) [2, 6, 11, 17, 24]
           (s\<lparr>SRMSEL0 := 0, SRMSEL1 := 0\<rparr>) = Inr s1
       \<and> find_consecutive_free_sram_pages (cfg\<lparr>arbiter := ideal_arbiter\<rparr>) 6 s1 = Inr (Some 18)
       \<and> free_sram_pages (cfg\<lparr>arbiter := ideal_arbiter\<rparr>) 24 1 s1 = Inr s2
       \<and> find_consecutive_free_sram_pages (cfg\<lparr>arbiter := ideal_arbiter\<rparr>) 14 s2 = Inr (Some 18)
       \<and> find_consecutive_free_sram_pages (cfg\<lparr>arbiter := ideal_arbiter\<rparr>) 15 s2 = Inr None)"
proof (intro conjI impI)
  assume a: "1 \<le> n \<and> n \<le> 32"
  show "(\<exists>start. find_consecutive_free_sram_pages cfg (int n) s = Inr (Some (int start))
                \<and> free_run cfg s start n \<and> (\<forall>a. a < start \<longrightarrow> \<not> free_run cfg s a n))
      \<or> (find_consecutive_free_sram_pages cfg (int n) s = Inr None
          \<and> (\<forall>a. \<not> free_run cfg s a n))"
    by (rule find_consecutive_general) (use a in simp_all)
next
  show "\<exists>s1 s2.
         grab_each (cfg\<lparr>arbiter := ideal_arbiter\<rparr>) [2, 6, 11, 17, 24]
           (s\<lparr>SRMSEL0 := 0, SRMSEL1 := 0\<rparr>) = Inr s1
       \<and> find_consecutive_free_sram_pages (cfg\<lparr>arbiter := ideal_arbiter\<rparr>) 6 s1 = Inr (Some 18)
       \<and> free_sram_pages (cfg\<lparr>arbiter := ideal_arbiter\<rparr>) 24 1 s1 = Inr s2
       \<and> find_consecutive_free_sram_pages (cfg\<lparr>arbiter := ideal_arbiter\<rparr>) 14 s2 = Inr (Some 18)
       \<and> find_consecutive_free_sram_pages (cfg\<lparr>arbiter := ideal_arbiter\<rparr>) 15 s2 = Inr None"
    by (simp add: grab_one_sram_page_def get_sram_page_ownership_def IPC_BUG_def
        request_page_ideal set_page_field_def to_ownership_def Let_def release_one_sram_page_def
        free_sram_pages_def free_sram_pages_loop.simps find_consecutive_free_sram_pages_def
        sram_ownership_status_def find_loop.simps)
qed

theorem find_consecutive_free_sram_pages_lowest_run_witness:
  "(1::nat) \<le> 7 \<and> (7::nat) \<le> 32
   \<and> find_consecutive_free_sram_pages example_platform 7
        (boot_state\<lparr>SRMSEL0 := 0x401010, SRMSEL1 := 0x10004\<rparr>) = Inr (Some 25)
   \<and> free_run example_platform (boot_state\<lparr>SRMSEL0 := 0x401010, SRMSEL1 := 0x10004\<rparr>) 25 7
   \<and> \<not> free_run example_platform (boot_state\<lparr>SRMSEL0 := 0x401010, SRMSEL1 := 0x10004\<rparr>) 18 7"
proof -
  let ?s = "boot_state\<lparr>SRMSEL0 := 0x401010, SRMSEL1 := 0x10004\<rparr>"
  have v: "find_consecutive_free_sram_pages example_platform 7 ?s = Inr (Some 25)"
    by (simp add: find_consecutive_free_sram_pages_def sram_ownership_status_def find_loop.simps
        to_ownership_def IPC_BUG_def)
  have "1 \<le> (7::nat) \<and> (7::nat) \<le> 32" by simp
  with find_consecutive_free_sram_pages_lowest_run[of 7 example_platform ?s] v
  have "free_run example_platform ?s 25 7
        \<and> (\<forall>a. a < 25 \<longrightarrow> \<not> free_run example_platform ?s a 7)"
    by auto
  with v show ?thesis by simp
qed

lemma to_ownership_free_iff: "to_ownership w = ownership_free \<longleftrightarrow> w = 0"
  by (simp add: to_ownership_def)

lemma to_ownership_a7_iff: "to_ownership w = ownership_a7 \<longleftrightarrow> w = 1"
  by (simp add: to_ownership_def)

lemma get_own_int:
  "0 \<le> p \<Longrightarrow> p < 32 \<Longrightarrow> get_sram_page_ownership cfg p s = Inr (owner_of s (nat p))"
  using get_sram_page_ownership_eq[of "nat p" cfg s] by simp


lemma three_mask: "(3::32 word) = mask 2"
  by (simp add: mask_eq_exp_minus_1)

lemma field_upd_same:
  "sh \<le> 30 \<Longrightarrow>
   drop_bit sh (((w::32 word) AND NOT (push_bit sh 3)) OR push_bit sh (v AND 3)) AND 3 = v AND 3"
  unfolding three_mask
  by (rule bit_eqI) (auto simp: bit_simps)


lemma page_field_set_same:
  assumes "p < 32"
  shows "page_field (set_page_field p v r) p = v AND 3"
proof -
  have "p mod 16 < 16" by simp
  then have "2 * (p mod 16) \<le> 30" by linarith
  note eq = field_upd_same[OF this, of _ v]
  show ?thesis
  proof (cases "p div 16 = 0")
    case True
    then show ?thesis
      unfolding page_field_def set_page_field_def Let_def by (simp only: if_True fst_conv eq simp_thms)
  next
    case False
    then show ?thesis
      unfolding page_field_def set_page_field_def Let_def by (simp only: if_False snd_conv eq simp_thms)
  qed
qed


lemma regs_request_page:
  "(SRMSEL0 (request_page cfg p w s), SRMSEL1 (request_page cfg p w s)) =
     set_page_field (nat p)
       (arbiter cfg (nat p) (push_bit 4 (A7_REQ_KEY cfg) OR ownership_val w) (SRMSEL0 s, SRMSEL1 s))
       (SRMSEL0 s, SRMSEL1 s)"
  by (simp add: request_page_def iowrite32_def Let_def)


lemma owner_of_request_page_same:
  assumes "0 \<le> p" and "p < 32"
  shows "owner_of (request_page cfg p w s) (nat p) =
     to_ownership (arbiter cfg (nat p) (push_bit 4 (A7_REQ_KEY cfg) OR ownership_val w)
                     (SRMSEL0 s, SRMSEL1 s) AND 3)"
proof -
  have "nat p < 32" using assms by simp
  from page_field_set_same[OF this] show ?thesis
    by (simp only: owner_of_def regs_request_page)
qed


lemma grab_one_eq:
  assumes "0 \<le> p" "p < 32"
  shows "grab_one_sram_page cfg p s =
     (if owner_of s (nat p) \<noteq> ownership_free then Inr (0, s)
      else if owner_of (request_page cfg p ownership_a7 s) (nat p) \<noteq> ownership_a7
           then Inr (0, request_page cfg p ownership_a7 s)
           else Inr (1, request_page cfg p ownership_a7 s))"
  by (simp add: grab_one_sram_page_def get_own_int[OF assms] Let_def)

lemma release_one_eq:
  assumes "0 \<le> p" "p < 32"
  shows "release_one_sram_page cfg p s =
     (if IPC_BUG cfg (owner_of s (nat p) \<noteq> ownership_a7) then Inl Bug
      else if IPC_BUG cfg (owner_of (request_page cfg p ownership_free s) (nat p) \<noteq> ownership_free)
           then Inl Bug
           else Inr (request_page cfg p ownership_free s))"
  by (simp add: release_one_sram_page_def get_own_int[OF assms] Let_def)

lemma example_platform_arbiter: "arbiter example_platform = ideal_arbiter"
  by (simp add: example_platform_def)

text \<open>
  C2 (as stated) fails on the code: in a build without DEBUG the readback after the
  release request is not checked, so on hardware that performs the grab and ignores the
  request to free, the grab of page 3 returns 1, the release returns, and the page is
  still owned by the A7.
\<close>

theorem release_leaves_page_owned_counterexample:
  "grab_then_release (example_platform\<lparr>DEBUG := False, arbiter := grab_only_arbiter\<rparr>) 3 boot_state
     = Inr (1, ownership_a7)"
  by (simp add: grab_then_release_def grab_one_sram_page_def release_one_sram_page_def
      get_sram_page_ownership_def IPC_BUG_def request_page_def iowrite32_def Let_def
      grab_only_arbiter_def set_page_field_def page_field_def to_ownership_def
      example_platform_def boot_state_def req_low_bits[of _ ownership_a7, simplified]
      req_low_bits[of _ ownership_free, simplified])

text \<open>
  C2, amended.  For a page \<open>p\<close> in [0, 32): \<^verbatim>\<open>grab_one_sram_page(p)\<close> returns 0 or 1; if
  it returns 1 the page is owned by the A7 afterwards.  A following
  \<^verbatim>\<open>release_one_sram_page(p)\<close> writes the request to free the page, and the page is free
  afterwards when the readback after that request confirms it: a DEBUG build asserts the
  readback and does not return otherwise, a build without DEBUG returns without checking
  it.  The grab returns 0 when the page was not free beforehand (nothing is written then)
  and when the readback after the request is not A7.
\<close>

theorem grab_release_one_sram_page:
  assumes "0 \<le> p" and "p < 32"
  shows "(\<exists>r s'. grab_one_sram_page cfg p s = Inr (r, s') \<and> (r = 0 \<or> r = 1))
    \<and> (grab_one_sram_page cfg p s = Inr (1, s1) \<longrightarrow>
          get_sram_page_ownership cfg p s1 = Inr ownership_a7)
    \<and> (grab_one_sram_page cfg p s = Inr (1, s1) \<and> release_one_sram_page cfg p s1 = Inr s2 \<longrightarrow>
          s2 = request_page cfg p ownership_free s1)
    \<and> (grab_one_sram_page cfg p s = Inr (1, s1)
          \<and> get_sram_page_ownership cfg p (request_page cfg p ownership_free s1) = Inr ownership_free \<longrightarrow>
          release_one_sram_page cfg p s1 = Inr (request_page cfg p ownership_free s1))
    \<and> (grab_one_sram_page cfg p s = Inr (1, s1) \<and> release_one_sram_page cfg p s1 = Inr s2
          \<and> DEBUG cfg \<longrightarrow>
          get_sram_page_ownership cfg p s2 = Inr ownership_free)
    \<and> (grab_one_sram_page cfg p s = Inr (1, s1) \<and> \<not> DEBUG cfg \<longrightarrow>
          release_one_sram_page cfg p s1 = Inr (request_page cfg p ownership_free s1))
    \<and> (get_sram_page_ownership cfg p s \<noteq> Inr ownership_free \<longrightarrow>
          grab_one_sram_page cfg p s = Inr (0, s))
    \<and> (get_sram_page_ownership cfg p (request_page cfg p ownership_a7 s) \<noteq> Inr ownership_a7 \<longrightarrow>
          (\<exists>s'. grab_one_sram_page cfg p s = Inr (0, s')))"
proof (intro conjI impI)
  show "\<exists>r s'. grab_one_sram_page cfg p s = Inr (r, s') \<and> (r = 0 \<or> r = 1)"
    by (simp add: grab_one_eq[OF assms])
next
  assume "grab_one_sram_page cfg p s = Inr (1, s1)"
  then show "get_sram_page_ownership cfg p s1 = Inr ownership_a7"
    by (auto simp: grab_one_eq[OF assms] get_own_int[OF assms] split: if_splits)
next
  assume "grab_one_sram_page cfg p s = Inr (1, s1) \<and> release_one_sram_page cfg p s1 = Inr s2"
  then show "s2 = request_page cfg p ownership_free s1"
    by (auto simp: release_one_eq[OF assms] split: if_splits)
next
  assume a: "grab_one_sram_page cfg p s = Inr (1, s1)
          \<and> get_sram_page_ownership cfg p (request_page cfg p ownership_free s1) = Inr ownership_free"
  then have "owner_of s1 (nat p) = ownership_a7"
    by (auto simp: grab_one_eq[OF assms] split: if_splits)
  with a show "release_one_sram_page cfg p s1 = Inr (request_page cfg p ownership_free s1)"
    by (simp add: release_one_eq[OF assms] get_own_int[OF assms] IPC_BUG_def)
next
  assume a: "grab_one_sram_page cfg p s = Inr (1, s1) \<and> release_one_sram_page cfg p s1 = Inr s2
          \<and> DEBUG cfg"
  then show "get_sram_page_ownership cfg p s2 = Inr ownership_free"
    by (auto simp: release_one_eq[OF assms] get_own_int[OF assms] IPC_BUG_def split: if_splits)
next
  assume "grab_one_sram_page cfg p s = Inr (1, s1) \<and> \<not> DEBUG cfg"
  then show "release_one_sram_page cfg p s1 = Inr (request_page cfg p ownership_free s1)"
    by (simp add: release_one_eq[OF assms] IPC_BUG_def)
next
  assume "get_sram_page_ownership cfg p s \<noteq> Inr ownership_free"
  then show "grab_one_sram_page cfg p s = Inr (0, s)"
    by (simp add: grab_one_eq[OF assms] get_own_int[OF assms])
next
  assume "get_sram_page_ownership cfg p (request_page cfg p ownership_a7 s) \<noteq> Inr ownership_a7"
  then show "\<exists>s'. grab_one_sram_page cfg p s = Inr (0, s')"
    by (simp add: grab_one_eq[OF assms] get_own_int[OF assms])
qed

theorem grab_release_one_sram_page_witness:
  "(0::int) \<le> 3 \<and> (3::int) < 32 \<and> DEBUG example_platform
   \<and> (\<exists>s1 s2. grab_one_sram_page example_platform 3 boot_state = Inr (1, s1)
        \<and> get_sram_page_ownership example_platform 3 s1 = Inr ownership_a7
        \<and> release_one_sram_page example_platform 3 s1 = Inr s2
        \<and> get_sram_page_ownership example_platform 3 s2 = Inr ownership_free)"
proof -
  have d: "DEBUG example_platform" by (simp add: example_platform_def)
  obtain s1 where s1: "grab_one_sram_page example_platform 3 boot_state = Inr (1, s1)"
    by (simp add: grab_one_sram_page_def get_sram_page_ownership_def IPC_BUG_def
        request_page_ideal[OF example_platform_arbiter] set_page_field_def to_ownership_def Let_def
        boot_state_def)
  have r: "(0::int) \<le> 3" "(3::int) < 32" by simp_all
  have f: "get_sram_page_ownership example_platform 3
             (request_page example_platform 3 ownership_free s1) = Inr ownership_free"
    using owner_of_request_page_same[OF r, of example_platform ownership_free s1]
    by (simp add: get_own_int[OF r] example_platform_arbiter ideal_arbiter_def to_ownership_def
        req_low_bits[of _ ownership_free, simplified])
  let ?s2 = "request_page example_platform 3 ownership_free s1"
  from grab_release_one_sram_page[OF r, of example_platform boot_state s1 ?s2] s1 f d
  have "get_sram_page_ownership example_platform 3 s1 = Inr ownership_a7"
       "release_one_sram_page example_platform 3 s1 = Inr ?s2"
       "get_sram_page_ownership example_platform 3 ?s2 = Inr ownership_free"
    by blast+
  with s1 d show ?thesis by auto
qed

lemma wait_flag_clear_zero: "wait_flag_clear 0 rs = Some rs"
  by (cases rs) simp_all

lemma wait_flag_clear_exit:
  "f \<noteq> 0 \<Longrightarrow> wait_flag_clear f rs = Some rest \<longleftrightarrow>
     (\<exists>pre. rs = pre @ 0 # rest \<and> (\<forall>r\<in>set pre. r \<noteq> 0))"
proof (induction rs arbitrary: f)
  case Nil
  then show ?case by simp
next
  case (Cons r rs)
  show ?case
  proof (cases "r = 0")
    case True
    with Cons.prems show ?thesis
      apply (simp add: wait_flag_clear_zero)
      apply (rule iffI)
       apply (rule exI[of _ "[]"])
       apply simp
      apply (erule exE)
      subgoal for pre by (cases pre) auto
      done
  next
    case False
    with Cons.prems Cons.IH[OF False] show ?thesis
      apply simp
      apply (rule iffI)
       apply (erule exE)
      subgoal for pre by (rule exI[of _ "r # pre"]) simp
      apply (erule exE)
      subgoal for pre by (cases pre) auto
      done
  qed
qed

lemma scan_free_channel_Some:
  "scan_free_channel chs m i = Inr (Some k, chs') \<Longrightarrow>
     i \<le> k \<and> int k < m \<and> k < 16 \<and> used (chs k) = 0 \<and> (\<forall>j. i \<le> j \<and> j < k \<longrightarrow> used (chs j) \<noteq> 0)
     \<and> chs' = chs(k := (chs k)\<lparr>used := 1\<rparr>)"
proof (induction chs m i rule: scan_free_channel.induct)
  case (1 channels max_channel i)
  show ?case
  proof (cases "int i < max_channel \<and> \<not> int i \<ge> 16 \<and> used (channels i) \<noteq> 0")
    case True
    then have "scan_free_channel channels max_channel (Suc i) = Inr (Some k, chs')"
      using "1.prems" by (simp add: scan_free_channel.simps[of channels max_channel i])
    from "1.IH"[OF _ _ _ this] True
    have "Suc i \<le> k \<and> int k < max_channel \<and> k < 16 \<and> used (channels k) = 0
          \<and> (\<forall>j. Suc i \<le> j \<and> j < k \<longrightarrow> used (channels j) \<noteq> 0)
          \<and> chs' = channels(k := (channels k)\<lparr>used := 1\<rparr>)" by (simp add: fun_upd_def)
    moreover have "used (channels j) \<noteq> 0" if "i \<le> j" "j < k" for j
      using that True calculation by (metis Suc_leI le_neq_implies_less)
    ultimately show ?thesis by (simp add: Suc_le_lessD less_imp_le)
  next
    case False
    with "1.prems" show ?thesis
      by (auto simp: scan_free_channel.simps[of channels max_channel i] split: if_splits)
  qed
qed

lemma scan_free_channel_None:
  "scan_free_channel chs m i = Inr (None, chs') \<Longrightarrow>
     chs' = chs \<and> (\<forall>j. i \<le> j \<and> int j < m \<longrightarrow> used (chs j) \<noteq> 0)"
proof (induction chs m i rule: scan_free_channel.induct)
  case (1 channels max_channel i)
  show ?case
  proof (cases "int i < max_channel \<and> \<not> int i \<ge> 16 \<and> used (channels i) \<noteq> 0")
    case True
    then have "scan_free_channel channels max_channel (Suc i) = Inr (None, chs')"
      using "1.prems" by (simp add: scan_free_channel.simps[of channels max_channel i])
    from "1.IH"[OF _ _ _ this] True
    have "chs' = channels \<and> (\<forall>j. Suc i \<le> j \<and> int j < max_channel \<longrightarrow> used (channels j) \<noteq> 0)"
      by simp
    moreover have "used (channels j) \<noteq> 0" if "i \<le> j" "int j < max_channel" for j
      using that True calculation by (metis Suc_leI le_neq_implies_less)
    ultimately show ?thesis by simp
  next
    case False
    with "1.prems" show ?thesis
      by (auto simp: scan_free_channel.simps[of channels max_channel i] split: if_splits)
  qed
qed

lemma scan_free_channel_full:
  "m \<le> 16 \<Longrightarrow> \<forall>j. i \<le> j \<and> int j < m \<longrightarrow> used (chs j) \<noteq> 0 \<Longrightarrow>
   scan_free_channel chs m i = Inr (None, chs)"
proof (induction chs m i rule: scan_free_channel.induct)
  case (1 channels max_channel i)
  show ?case
  proof (cases "int i < max_channel")
    case True
    then have u: "used (channels i) \<noteq> 0" "\<not> int i \<ge> 16" using "1.prems" by auto
    have "scan_free_channel channels max_channel (Suc i) = Inr (None, channels)"
      by (rule "1.IH") (use True u "1.prems" in auto)
    with True u show ?thesis
      by (simp add: scan_free_channel.simps[of channels max_channel i])
  next
    case False
    then show ?thesis by (simp add: scan_free_channel.simps[of channels max_channel i])
  qed
qed

lemma get_free_channel_Some:
  assumes "get_free_channel cfg chs m a = Inr (Some k, chs')"
  shows "k < 16 \<and> used (chs k) = 0 \<and> chs' = chs(k := (chs k)\<lparr>used := 1\<rparr>)
       \<and> (a \<noteq> - 1 \<longrightarrow> int k = a)
       \<and> (a = - 1 \<longrightarrow> int k < m \<and> (\<forall>j. j < k \<longrightarrow> used (chs j) \<noteq> 0))
       \<and> (DEBUG cfg \<longrightarrow> int k < m)"
proof (cases "a = - 1")
  case True
  with assms have "scan_free_channel chs m 0 = Inr (Some k, chs')"
    by (simp add: get_free_channel_def split: if_splits)
  from scan_free_channel_Some[OF this] True show ?thesis by simp
next
  case False
  with assms show ?thesis
    by (auto simp: get_free_channel_def IPC_BUG_def Let_def split: if_splits)
qed

lemma get_free_channel_None:
  assumes "get_free_channel cfg chs m a = Inr (None, chs')"
  shows "chs' = chs
       \<and> (a \<noteq> - 1 \<longrightarrow> 0 \<le> a \<and> a < 16 \<and> used (chs (nat a)) \<noteq> 0)
       \<and> (a = - 1 \<longrightarrow> (\<forall>j. int j < m \<longrightarrow> used (chs j) \<noteq> 0))"
proof (cases "a = - 1")
  case True
  with assms have "scan_free_channel chs m 0 = Inr (None, chs')"
    by (simp add: get_free_channel_def split: if_splits)
  from scan_free_channel_None[OF this] True show ?thesis by simp
next
  case False
  with assms show ?thesis
    by (auto simp: get_free_channel_def IPC_BUG_def Let_def split: if_splits)
qed

lemma get_channel_Some:
  assumes "columbus_ipc_get_channel cfg p ope m a s = Inr (Some (t, k), s')"
  shows "t = table_of_partner p \<and> k < 16
       \<and> used (channels_of s t k) = IPC_CHANNEL_UNUSED
       \<and> s' = channels_update t ((channels_of s t)
                 (k := set_ipc_channel ((channels_of s t k)\<lparr>used := IPC_CHANNEL_USED\<rparr>) p ope m)) s
       \<and> (a \<noteq> - 1 \<longrightarrow> int k = a)
       \<and> (a = - 1 \<longrightarrow> int k < max_of_mode m \<and> (\<forall>j. j < k \<longrightarrow> used (channels_of s t j) \<noteq> IPC_CHANNEL_UNUSED))
       \<and> (DEBUG cfg \<longrightarrow> int k < max_of_mode m)"
proof -
  from assms obtain chs where
    g: "get_free_channel cfg (channels_of s (table_of_partner p)) (max_of_mode m) a = Inr (Some k, chs)"
    and t: "t = table_of_partner p"
    and s': "s' = channels_update t (chs(k := set_ipc_channel (chs k) p ope m)) s"
    by (auto simp: columbus_ipc_get_channel_def get_lock_def get_channels_def get_max_channel_def
        table_of_partner_def max_of_mode_def split: if_splits sum.splits option.splits prod.splits)
  from get_free_channel_Some[OF g] t s' show ?thesis by simp
qed

lemma get_channel_None:
  assumes "columbus_ipc_get_channel cfg p ope m a s = Inr (None, s')"
  shows "s' = s
       \<and> (a \<noteq> - 1 \<longrightarrow> 0 \<le> a \<and> a < 16 \<and> used (channels_of s (table_of_partner p) (nat a)) \<noteq> IPC_CHANNEL_UNUSED)
       \<and> (a = - 1 \<longrightarrow> (\<forall>j. int j < max_of_mode m \<longrightarrow> used (channels_of s (table_of_partner p) j) \<noteq> IPC_CHANNEL_UNUSED))"
proof -
  from assms obtain chs where
    g: "get_free_channel cfg (channels_of s (table_of_partner p)) (max_of_mode m) a = Inr (None, chs)"
    and s': "s' = s"
    by (auto simp: columbus_ipc_get_channel_def get_lock_def get_channels_def get_max_channel_def
        table_of_partner_def max_of_mode_def split: if_splits sum.splits option.splits prod.splits)
  from get_free_channel_None[OF g] s' show ?thesis by simp
qed

lemma get_channel_unfold:
  assumes "args_ok p ope m a"
  shows "columbus_ipc_get_channel cfg p ope m a s =
     (case get_free_channel cfg (channels_of s (table_of_partner p)) (max_of_mode m) a of
        Inl e \<Rightarrow> Inl e
      | Inr (None, chs) \<Rightarrow> Inr (None, s)
      | Inr (Some i, chs) \<Rightarrow>
          Inr (Some (table_of_partner p, i),
               channels_update (table_of_partner p) (chs(i := set_ipc_channel (chs i) p ope m)) s))"
proof -
  from assms have a: "p = 0 \<or> p = 1" "ope = 0 \<or> ope = 1" "m = 0 \<or> m = 1"
    by (simp_all add: args_ok_def)
  then have nb: "\<not> IPC_BUG cfg (p \<noteq> 0 \<and> p \<noteq> 1)" "\<not> IPC_BUG cfg (ope \<noteq> 0 \<and> ope \<noteq> 1)"
    "\<not> IPC_BUG cfg (m \<noteq> 0 \<and> m \<noteq> 1)"
    by (auto simp: IPC_BUG_def)
  have l: "get_lock cfg p = Inr (table_of_partner p)" "get_channels cfg p = Inr (table_of_partner p)"
    using a(1) by (auto simp: get_lock_def get_channels_def table_of_partner_def IPC_BUG_def)
  have mx: "get_max_channel cfg ope m = Inr (max_of_mode m)"
    using a(3) by (auto simp: get_max_channel_def max_of_mode_def IPC_BUG_def)
  show ?thesis
    unfolding columbus_ipc_get_channel_def using nb by (simp add: l mx)
qed

lemma get_channel_occupied:
  assumes "args_ok p ope m a" and "a \<noteq> - 1"
    and "used (channels_of s (table_of_partner p) (nat a)) \<noteq> IPC_CHANNEL_UNUSED"
  shows "columbus_ipc_get_channel cfg p ope m a s = Inr (None, s)"
proof -
  from assms(1,2) have r: "0 \<le> a" "a < max_of_mode m" by (simp_all add: args_ok_def)
  have "max_of_mode m \<le> 16" by (simp add: max_of_mode_def)
  with r assms(2,3) have
    "get_free_channel cfg (channels_of s (table_of_partner p)) (max_of_mode m) a
     = Inr (None, channels_of s (table_of_partner p))"
    by (simp add: get_free_channel_def IPC_BUG_def Let_def)
  then show ?thesis by (simp add: get_channel_unfold[OF assms(1)])
qed

lemma get_channel_exhausted:
  assumes "args_ok p ope m a" and "a = - 1"
    and "\<forall>j. int j < max_of_mode m \<longrightarrow> used (channels_of s (table_of_partner p) j) \<noteq> IPC_CHANNEL_UNUSED"
  shows "columbus_ipc_get_channel cfg p ope m a s = Inr (None, s)"
proof -
  have le: "max_of_mode m \<le> 16" by (simp add: max_of_mode_def)
  have "scan_free_channel (channels_of s (table_of_partner p)) (max_of_mode m) 0
        = Inr (None, channels_of s (table_of_partner p))"
    by (rule scan_free_channel_full[OF le]) (use assms(3) in simp)
  with assms(2) le have
    "get_free_channel cfg (channels_of s (table_of_partner p)) (max_of_mode m) a
     = Inr (None, channels_of s (table_of_partner p))"
    by (simp add: get_free_channel_def IPC_BUG_def)
  then show ?thesis by (simp add: get_channel_unfold[OF assms(1)])
qed

lemma channels_of_update:
  "channels_of (channels_update t chs s) t' = (if t' = t then chs else channels_of s t')"
  by (cases t; cases t') (simp_all add: channels_of_def channels_update_def)

lemma get_channel_parts:
  assumes "columbus_ipc_get_channel cfg p ope m a s = Inr r"
  shows "get_channels cfg p = Inr (table_of_partner p)
       \<and> get_max_channel cfg ope m = Inr (max_of_mode m)"
proof -
  from assms have "\<exists>t. get_channels cfg p = Inr t" "\<exists>x. get_max_channel cfg ope m = Inr x"
    unfolding columbus_ipc_get_channel_def by (simp_all split: if_splits sum.splits)
  then show ?thesis
    by (auto simp: get_channels_def get_max_channel_def table_of_partner_def max_of_mode_def
        split: if_splits)
qed

lemma fresh_handle_channel2num:
  assumes "columbus_ipc_get_channel cfg p ope m a s = Inr (Some h, s')"
  shows "channel2num cfg h s' = Inr (int (snd h))"
proof -
  obtain t k where h: "h = (t, k)" by (cases h)
  note g = get_channel_Some[OF assms[unfolded h]]
  note parts = get_channel_parts[OF assms]
  have c: "channels_of s' t k = set_ipc_channel ((channels_of s t k)\<lparr>used := 1\<rparr>) p ope m"
    using g by (simp add: channels_of_update)
  have k: "k < 16" "t = table_of_partner p" "DEBUG cfg \<longrightarrow> int k < max_of_mode m"
    using g by blast+
  have f: "partner (channels_of s' (table_of_partner p) k) = p"
    "operation (channels_of s' (table_of_partner p) k) = ope"
    "mode (channels_of s' (table_of_partner p) k) = m"
    using c unfolding k(2) by (simp_all add: set_ipc_channel_def)
  show ?thesis
    unfolding h channel2num_def using k
    by (simp add: f parts Let_def IPC_BUG_def not_le)
qed

lemma put_channel_effect:
  assumes "columbus_ipc_put_channel cfg h s = Inr s'"
  shows "snd h < 16 \<and> s' = channels_update (fst h)
            ((channels_of s (fst h))(snd h := clear_ipc_channel (channels_of s (fst h) (snd h)))) s"
proof -
  obtain t i where h: "h = (t, i)" by (cases h)
  from assms show ?thesis
    unfolding h columbus_ipc_put_channel_def Let_def
    by (simp split: if_splits sum.splits)
qed

lemma run_calls_invariant:
  assumes "run_calls cfg cs (s, live) = Inr (s', live')"
    and "distinct live" and "\<forall>h\<in>set live. slot_used s h"
  shows "distinct live' \<and> (\<forall>h\<in>set live'. slot_used s' h)"
  using assms
proof (induction cs arbitrary: s live)
  case Nil
  then show ?case by simp
next
  case (Cons c cs)
  show ?case
  proof (cases c)
    case (Get p ope m a)
    show ?thesis
    proof (cases "columbus_ipc_get_channel cfg p ope m a s")
      case (Inl e)
      with Cons.prems(1) Get show ?thesis by simp
    next
      case (Inr r)
      obtain ho s1 where r: "r = (ho, s1)" by (cases r)
      show ?thesis
      proof (cases ho)
        case None
        with Inr r have "columbus_ipc_get_channel cfg p ope m a s = Inr (None, s1)" by simp
        from get_channel_None[OF this] have "s1 = s" by simp
        with Cons.prems Get Inr r None Cons.IH[of s live] show ?thesis by simp
      next
        case (Some h)
        obtain t k where h: "h = (t, k)" by (cases h)
        from Inr r Some h have "columbus_ipc_get_channel cfg p ope m a s = Inr (Some (t, k), s1)"
          by simp
        note g = get_channel_Some[OF this]
        from g have
          u: "used (channels_of s t k) = 0" and
          s1: "s1 = channels_update t ((channels_of s t)
                 (k := set_ipc_channel ((channels_of s t k)\<lparr>used := 1\<rparr>) p ope m)) s"
          by blast+
        have notin: "h \<notin> set live"
          using Cons.prems(3) u h by (auto simp: slot_used_def)
        have used1: "slot_used s1 h"
          by (simp add: slot_used_def h s1 channels_of_update set_ipc_channel_def)
        have keep: "slot_used s1 h'" if "h' \<in> set live" for h'
        proof -
          from that Cons.prems(3) have "slot_used s h'" by blast
          moreover from that notin have "h' \<noteq> h" by blast
          ultimately show ?thesis
            by (cases h') (auto simp: slot_used_def h s1 channels_of_update)
        qed
        have run: "run_calls cfg cs (s1, live @ [h]) = Inr (s', live')"
          using Cons.prems(1) Get Inr r Some by simp
        show ?thesis
          by (rule Cons.IH[OF run]) (use Cons.prems(2) notin used1 keep in auto)
      qed
    qed
  next
    case (Put h)
    show ?thesis
    proof (cases "columbus_ipc_put_channel cfg h s")
      case (Inl e)
      with Cons.prems(1) Put show ?thesis by simp
    next
      case (Inr s1)
      note e = put_channel_effect[OF Inr]
      have keep: "slot_used s1 h'" if "h' \<in> set (remove1 h live)" for h'
      proof -
        from that Cons.prems(2) have "h' \<in> set live" "h' \<noteq> h" by auto
        with Cons.prems(3) have "slot_used s h'" by blast
        with \<open>h' \<noteq> h\<close> show ?thesis
          using e by (cases h'; cases h) (auto simp: slot_used_def channels_of_update)
      qed
      have run: "run_calls cfg cs (s1, remove1 h live) = Inr (s', live')"
        using Cons.prems(1) Put Inr by simp
      show ?thesis
        by (rule Cons.IH[OF run]) (use Cons.prems(2) keep in auto)
    qed
  qed
qed

lemma scan_free_channel_returns:
  "m \<le> 16 \<Longrightarrow> \<exists>r. scan_free_channel chs m i = Inr r"
proof (induction chs m i rule: scan_free_channel.induct)
  case (1 channels max_channel i)
  show ?case
  proof (cases "int i < max_channel \<and> used (channels i) \<noteq> 0")
    case True
    then have "\<not> int i \<ge> 16" using "1.prems" by simp
    with True "1.IH"[OF _ _ _ "1.prems"] show ?thesis
      by (simp add: scan_free_channel.simps[of channels max_channel i])
  next
    case False
    with "1.prems" show ?thesis
      by (auto simp: scan_free_channel.simps[of channels max_channel i])
  qed
qed

lemma get_channel_returns:
  assumes "args_ok p ope m a"
  shows "\<exists>r s'. columbus_ipc_get_channel cfg p ope m a s = Inr (r, s')"
proof -
  have le: "max_of_mode m \<le> 16" by (simp add: max_of_mode_def)
  have "\<exists>r. get_free_channel cfg (channels_of s (table_of_partner p)) (max_of_mode m) a = Inr r"
  proof (cases "a = - 1")
    case True
    with scan_free_channel_returns[OF le] le show ?thesis
      by (simp add: get_free_channel_def IPC_BUG_def)
  next
    case False
    with assms have "0 \<le> a" "a < max_of_mode m" by (simp_all add: args_ok_def)
    with False le show ?thesis
      by (simp add: get_free_channel_def IPC_BUG_def Let_def)
  qed
  then obtain r where "get_free_channel cfg (channels_of s (table_of_partner p)) (max_of_mode m) a = Inr r"
    by blast
  then show ?thesis
    by (cases r; cases "fst r") (simp_all add: get_channel_unfold[OF assms])
qed

lemma boot_scenario:
  "\<exists>s8. run_calls cfg (replicate 8 (Get IPC_PARTNER_RF_DSP IPC_RECEIVE_OPERATION IPC_COMMUNICATION_INT
                                     COLUMBUS_IPC_INVALID)) (boot_state, [])
          = Inr (s8, [(RF_TABLE, 0), (RF_TABLE, 1), (RF_TABLE, 2), (RF_TABLE, 3),
                      (RF_TABLE, 4), (RF_TABLE, 5), (RF_TABLE, 6), (RF_TABLE, 7)])
      \<and> columbus_ipc_get_channel cfg IPC_PARTNER_RF_DSP IPC_RECEIVE_OPERATION IPC_COMMUNICATION_INT
            COLUMBUS_IPC_INVALID s8 = Inr (None, s8)
      \<and> (\<exists>s9. columbus_ipc_get_channel cfg IPC_PARTNER_RF_DSP IPC_RECEIVE_OPERATION
                  IPC_COMMUNICATION_POLL COLUMBUS_IPC_INVALID s8 = Inr (Some (RF_TABLE, 8), s9))"
  by (simp add: numeral_eq_Suc columbus_ipc_get_channel_def get_lock_def get_channels_def
      get_max_channel_def get_free_channel_def IPC_BUG_def scan_free_channel.simps
      channels_of_def channels_update_def boot_state_def zero_channel_def set_ipc_channel_def)

text \<open>
  C4.  \<^verbatim>\<open>columbus_ipc_get_channel\<close> hands out only a slot whose \<open>used\<close> flag was
  UNUSED and marks it USED: the appointed index when one is given, otherwise the lowest
  free index below 8 (interrupt mode) or 16 (poll mode).  It returns no handle exactly
  when the appointed slot is occupied or the range has no free slot.  Hence, along any
  sequence of get and put calls, the handles that are live are pairwise different and
  their slots are USED.  After 8 interrupt-mode acquires on the RF partner a 9th returns
  none and a poll-mode acquire returns slot 8.
\<close>

theorem columbus_ipc_get_channel_claims_free_slot:
  "(columbus_ipc_get_channel cfg p ope m a s = Inr (Some (t, k), s') \<longrightarrow>
      t = table_of_partner p \<and> k < 16
      \<and> used (channels_of s t k) = IPC_CHANNEL_UNUSED
      \<and> used (channels_of s' t k) = IPC_CHANNEL_USED
      \<and> (a \<noteq> COLUMBUS_IPC_INVALID \<longrightarrow> int k = a)
      \<and> (a = COLUMBUS_IPC_INVALID \<longrightarrow>
            int k < max_of_mode m
            \<and> (\<forall>j. j < k \<longrightarrow> used (channels_of s t j) \<noteq> IPC_CHANNEL_UNUSED)))
   \<and> (columbus_ipc_get_channel cfg p ope m a s = Inr (None, s') \<longrightarrow>
        s' = s
        \<and> (a \<noteq> COLUMBUS_IPC_INVALID \<longrightarrow>
              used (channels_of s (table_of_partner p) (nat a)) \<noteq> IPC_CHANNEL_UNUSED)
        \<and> (a = COLUMBUS_IPC_INVALID \<longrightarrow>
              (\<forall>j. int j < max_of_mode m \<longrightarrow>
                   used (channels_of s (table_of_partner p) j) \<noteq> IPC_CHANNEL_UNUSED)))
   \<and> (args_ok p ope m a \<longrightarrow>
        (\<exists>r s1. columbus_ipc_get_channel cfg p ope m a s = Inr (r, s1)))
   \<and> (args_ok p ope m a \<and> a \<noteq> COLUMBUS_IPC_INVALID
        \<and> used (channels_of s (table_of_partner p) (nat a)) \<noteq> IPC_CHANNEL_UNUSED \<longrightarrow>
        columbus_ipc_get_channel cfg p ope m a s = Inr (None, s))
   \<and> (args_ok p ope m a \<and> a = COLUMBUS_IPC_INVALID
        \<and> (\<forall>j. int j < max_of_mode m \<longrightarrow>
                 used (channels_of s (table_of_partner p) j) \<noteq> IPC_CHANNEL_UNUSED) \<longrightarrow>
        columbus_ipc_get_channel cfg p ope m a s = Inr (None, s))
   \<and> (run_calls cfg cs (s, live) = Inr (s2, live2) \<and> distinct live
        \<and> (\<forall>h\<in>set live. slot_used s h) \<longrightarrow>
        distinct live2 \<and> (\<forall>h\<in>set live2. slot_used s2 h))
   \<and> (\<exists>s8. run_calls cfg (replicate 8 (Get IPC_PARTNER_RF_DSP IPC_RECEIVE_OPERATION
                               IPC_COMMUNICATION_INT COLUMBUS_IPC_INVALID)) (boot_state, [])
          = Inr (s8, [(RF_TABLE, 0), (RF_TABLE, 1), (RF_TABLE, 2), (RF_TABLE, 3),
                      (RF_TABLE, 4), (RF_TABLE, 5), (RF_TABLE, 6), (RF_TABLE, 7)])
        \<and> columbus_ipc_get_channel cfg IPC_PARTNER_RF_DSP IPC_RECEIVE_OPERATION
              IPC_COMMUNICATION_INT COLUMBUS_IPC_INVALID s8 = Inr (None, s8)
        \<and> (\<exists>s9. columbus_ipc_get_channel cfg IPC_PARTNER_RF_DSP IPC_RECEIVE_OPERATION
                    IPC_COMMUNICATION_POLL COLUMBUS_IPC_INVALID s8 = Inr (Some (RF_TABLE, 8), s9)))"
proof (intro conjI)
  show "columbus_ipc_get_channel cfg p ope m a s = Inr (Some (t, k), s') \<longrightarrow>
      t = table_of_partner p \<and> k < 16
      \<and> used (channels_of s t k) = IPC_CHANNEL_UNUSED
      \<and> used (channels_of s' t k) = IPC_CHANNEL_USED
      \<and> (a \<noteq> COLUMBUS_IPC_INVALID \<longrightarrow> int k = a)
      \<and> (a = COLUMBUS_IPC_INVALID \<longrightarrow>
            int k < max_of_mode m
            \<and> (\<forall>j. j < k \<longrightarrow> used (channels_of s t j) \<noteq> IPC_CHANNEL_UNUSED))"
  proof
    assume g: "columbus_ipc_get_channel cfg p ope m a s = Inr (Some (t, k), s')"
    note f = get_channel_Some[OF g]
    then have "used (channels_of s' t k) = IPC_CHANNEL_USED"
      by (simp add: channels_of_update set_ipc_channel_def)
    with f show "t = table_of_partner p \<and> k < 16
      \<and> used (channels_of s t k) = IPC_CHANNEL_UNUSED
      \<and> used (channels_of s' t k) = IPC_CHANNEL_USED
      \<and> (a \<noteq> COLUMBUS_IPC_INVALID \<longrightarrow> int k = a)
      \<and> (a = COLUMBUS_IPC_INVALID \<longrightarrow>
            int k < max_of_mode m
            \<and> (\<forall>j. j < k \<longrightarrow> used (channels_of s t j) \<noteq> IPC_CHANNEL_UNUSED))"
      by blast
  qed
next
  show "columbus_ipc_get_channel cfg p ope m a s = Inr (None, s') \<longrightarrow>
        s' = s
        \<and> (a \<noteq> COLUMBUS_IPC_INVALID \<longrightarrow>
              used (channels_of s (table_of_partner p) (nat a)) \<noteq> IPC_CHANNEL_UNUSED)
        \<and> (a = COLUMBUS_IPC_INVALID \<longrightarrow>
              (\<forall>j. int j < max_of_mode m \<longrightarrow>
                   used (channels_of s (table_of_partner p) j) \<noteq> IPC_CHANNEL_UNUSED))"
    using get_channel_None[of cfg p ope m a s s'] by blast
next
  show "args_ok p ope m a \<longrightarrow>
        (\<exists>r s1. columbus_ipc_get_channel cfg p ope m a s = Inr (r, s1))"
    using get_channel_returns by blast
next
  show "args_ok p ope m a \<and> a \<noteq> COLUMBUS_IPC_INVALID
        \<and> used (channels_of s (table_of_partner p) (nat a)) \<noteq> IPC_CHANNEL_UNUSED \<longrightarrow>
        columbus_ipc_get_channel cfg p ope m a s = Inr (None, s)"
    using get_channel_occupied by blast
next
  show "args_ok p ope m a \<and> a = COLUMBUS_IPC_INVALID
        \<and> (\<forall>j. int j < max_of_mode m \<longrightarrow>
                 used (channels_of s (table_of_partner p) j) \<noteq> IPC_CHANNEL_UNUSED) \<longrightarrow>
        columbus_ipc_get_channel cfg p ope m a s = Inr (None, s)"
    using get_channel_exhausted[of p ope m a s cfg] by blast
next
  show "run_calls cfg cs (s, live) = Inr (s2, live2) \<and> distinct live
        \<and> (\<forall>h\<in>set live. slot_used s h) \<longrightarrow>
        distinct live2 \<and> (\<forall>h\<in>set live2. slot_used s2 h)"
    using run_calls_invariant[of cfg cs s live s2 live2] by blast
next
  show "\<exists>s8. run_calls cfg (replicate 8 (Get IPC_PARTNER_RF_DSP IPC_RECEIVE_OPERATION
                               IPC_COMMUNICATION_INT COLUMBUS_IPC_INVALID)) (boot_state, [])
          = Inr (s8, [(RF_TABLE, 0), (RF_TABLE, 1), (RF_TABLE, 2), (RF_TABLE, 3),
                      (RF_TABLE, 4), (RF_TABLE, 5), (RF_TABLE, 6), (RF_TABLE, 7)])
        \<and> columbus_ipc_get_channel cfg IPC_PARTNER_RF_DSP IPC_RECEIVE_OPERATION
              IPC_COMMUNICATION_INT COLUMBUS_IPC_INVALID s8 = Inr (None, s8)
        \<and> (\<exists>s9. columbus_ipc_get_channel cfg IPC_PARTNER_RF_DSP IPC_RECEIVE_OPERATION
                    IPC_COMMUNICATION_POLL COLUMBUS_IPC_INVALID s8 = Inr (Some (RF_TABLE, 8), s9))"
    by (rule boot_scenario)
qed

theorem columbus_ipc_get_channel_claims_free_slot_witness:
  "args_ok 0 1 0 (- 1)
   \<and> (\<exists>s'. columbus_ipc_get_channel example_platform 0 1 0 (- 1) boot_state
              = Inr (Some (RF_TABLE, 0), s')
          \<and> used (channels_of boot_state RF_TABLE 0) = 0
          \<and> used (channels_of s' RF_TABLE 0) = 1
          \<and> columbus_ipc_get_channel example_platform 0 1 0 0 s' = Inr (None, s'))"
proof -
  have ok: "args_ok 0 1 0 (- 1)" "args_ok 0 1 0 0"
    by (simp_all add: args_ok_def max_of_mode_def)
  obtain s' where g: "columbus_ipc_get_channel example_platform 0 1 0 (- 1) boot_state
      = Inr (Some (RF_TABLE, 0), s')"
    by (simp add: columbus_ipc_get_channel_def get_lock_def get_channels_def
      get_max_channel_def get_free_channel_def IPC_BUG_def scan_free_channel.simps
      channels_of_def boot_state_def zero_channel_def)
  note th = columbus_ipc_get_channel_claims_free_slot[of example_platform 0 1 0 "- 1" boot_state
      RF_TABLE 0 s']
  from th g have u: "used (channels_of boot_state RF_TABLE 0) = 0"
    "used (channels_of s' RF_TABLE 0) = 1" by blast+
  note th2 = columbus_ipc_get_channel_claims_free_slot[of example_platform 0 1 0 0 s']
  have "table_of_partner 0 = RF_TABLE" by (simp add: table_of_partner_def)
  with th2 ok(2) u(2) have "columbus_ipc_get_channel example_platform 0 1 0 0 s' = Inr (None, s')"
    by simp
  with ok g u show ?thesis by blast
qed

text \<open>
  C10.  With \<open>len = 0\<close>, \<^verbatim>\<open>columbus_ipc_send_message\<close> returns 0 and leaves the whole
  state as it was (ownership registers, shared RAM and the trace of register writes), for
  every \<open>page_num\<close>, message and register behaviour.  The function evaluates
  \<^verbatim>\<open>channel2num(channel)\<close> before it tests the length, so the handle has to be one
  that \<^verbatim>\<open>channel2num\<close> accepts; every handle returned by
  \<^verbatim>\<open>columbus_ipc_get_channel\<close> is.
\<close>

theorem send_message_len_zero:
  "(channel2num cfg channel s = Inr n \<longrightarrow>
      columbus_ipc_send_message cfg channel message 0 page_num flag_reads s = Inr (0, s))
   \<and> (columbus_ipc_get_channel cfg p ope m a s0 = Inr (Some channel, s) \<longrightarrow>
      columbus_ipc_send_message cfg channel message 0 page_num flag_reads s = Inr (0, s))"
proof (intro conjI impI)
  assume "channel2num cfg channel s = Inr n"
  then show "columbus_ipc_send_message cfg channel message 0 page_num flag_reads s = Inr (0, s)"
    by (simp add: columbus_ipc_send_message_def)
next
  assume "columbus_ipc_get_channel cfg p ope m a s0 = Inr (Some channel, s)"
  from fresh_handle_channel2num[OF this]
  show "columbus_ipc_send_message cfg channel message 0 page_num flag_reads s = Inr (0, s)"
    by (simp add: columbus_ipc_send_message_def)
qed

lemma example_channel_state_eq:
  "columbus_ipc_get_channel example_platform IPC_PARTNER_RF_DSP IPC_SEND_OPERATION
      IPC_COMMUNICATION_POLL COLUMBUS_IPC_INVALID boot_state
   = Inr (Some (RF_TABLE, 0), example_channel_state)"
  by (simp add: example_channel_state_def columbus_ipc_get_channel_def get_lock_def get_channels_def
      get_max_channel_def get_free_channel_def IPC_BUG_def scan_free_channel.simps
      channels_of_def boot_state_def zero_channel_def)

theorem send_message_len_zero_witness:
  "columbus_ipc_get_channel example_platform 0 0 1 (- 1) boot_state
     = Inr (Some (RF_TABLE, 0), example_channel_state)
   \<and> columbus_ipc_send_message example_platform (RF_TABLE, 0) [0x41] 0 5 [] example_channel_state
     = Inr (0, example_channel_state)"
  using send_message_len_zero[of example_platform "(RF_TABLE, 0)" example_channel_state _
      "[0x41]" 5 "[]" 0 0 1 "- 1" boot_state] example_channel_state_eq
  by simp

lemma ecs: "example_channel_state = boot_state\<lparr>ipc_rf_channel := (ipc_rf_channel boot_state)
   (0 := \<lparr>magic_1 = 0x49504331, used = 1, partner = 0, operation = 0, mode = 1, magic_2 = 0x49504332\<rparr>)\<rparr>"
  by (simp add: example_channel_state_def columbus_ipc_get_channel_def get_lock_def get_channels_def
      get_max_channel_def get_free_channel_def IPC_BUG_def scan_free_channel.simps
      channels_of_def channels_update_def boot_state_def zero_channel_def set_ipc_channel_def)

lemma send_spins:
  "columbus_ipc_send_message example_platform (RF_TABLE, 0) [0x41] 1 (- 1) [2] example_channel_state
     = Inl Spins"
  by (simp add: ecs columbus_ipc_send_message_def channel2num_def channels_of_def boot_state_def
      get_channels_def get_max_channel_def IPC_BUG_def Let_def
      ipc_sram_alloc_def pagenum2pageaddr_def pages_for_def try_to_grab_sram_pages_def
      find_consecutive_free_sram_pages_def sram_ownership_status_def find_loop.simps to_ownership_def
      grab_loop.simps grab_one_sram_page_def get_sram_page_ownership_def
      request_page_ideal set_page_field_def
      pageaddr2pagenum_def ptr_diff_def notify_partner_def iowrite32_def
      example_platform_def signed_divide_int_def signed_modulo_int_def)

lemma send_returns:
  "map_sum id fst (columbus_ipc_send_message example_platform (RF_TABLE, 0) [0x41] 1 (- 1) [2, 0]
      example_channel_state) = Inr 1"
  by (simp add: ecs columbus_ipc_send_message_def channel2num_def channels_of_def boot_state_def
      get_channels_def get_max_channel_def IPC_BUG_def Let_def
      ipc_sram_alloc_def pagenum2pageaddr_def pages_for_def try_to_grab_sram_pages_def
      find_consecutive_free_sram_pages_def sram_ownership_status_def find_loop.simps to_ownership_def
      grab_loop.simps grab_one_sram_page_def get_sram_page_ownership_def
      request_page_ideal set_page_field_def
      pageaddr2pagenum_def ptr_diff_def notify_partner_def iowrite32_def
      ipc_sram_free_def free_sram_pages_def free_sram_pages_loop.simps release_one_sram_page_def
      example_platform_def signed_divide_int_def signed_modulo_int_def)

text \<open>
  C5.  The busy-wait of \<^verbatim>\<open>columbus_ipc_send_message\<close> tests the whole flag register,
  not the bit of its channel.  On channel 0, a first read of 2 (bit 0 clear, bit 1 set) does
  not end the loop: it goes on to the next read and ends only at a read of 0.  The send
  as a whole is still spinning after the reads [2] and returns after [2, 0].
\<close>

theorem send_wait_tests_whole_register:
  "(2 :: 32 word) AND push_bit 0 1 = 0
   \<and> wait_flag_clear (push_bit 0 1) [2] = None
   \<and> wait_flag_clear (push_bit 0 1) [2, 0] = Some []
   \<and> columbus_ipc_send_message example_platform (RF_TABLE, 0) [0x41] 1 (- 1) [2]
        example_channel_state = Inl Spins
   \<and> map_sum id fst (columbus_ipc_send_message example_platform (RF_TABLE, 0) [0x41] 1 (- 1) [2, 0]
        example_channel_state) = Inr 1"
  using send_spins send_returns by simp

lemma example_irq_state_eq:
  "example_irq_state = boot_state\<lparr>ipc_rf_channel := (ipc_rf_channel boot_state)
     (0 := \<lparr>magic_1 = 0x49504331, used = 1, partner = 0, operation = 0, mode = 0,
             magic_2 = 0x49504332\<rparr>)\<rparr>"
  by (simp add: example_irq_state_def columbus_ipc_get_channel_def get_lock_def get_channels_def
      get_max_channel_def get_free_channel_def IPC_BUG_def scan_free_channel.simps
      channels_of_def channels_update_def boot_state_def zero_channel_def set_ipc_channel_def)

text \<open>
  C9 (as stated) fails on the code: \<^verbatim>\<open>complete(done)\<close> stands after the
  \<^verbatim>\<open>if\<close>/\<^verbatim>\<open>else\<close> on the direction, so the handler signals the completion slot of a
  send-direction channel too.  For the RF channel 0 acquired for sending in interrupt
  mode, the handler's trace is the completion of slot 0 followed by the ack write.
\<close>

theorem irq_handler_completes_send_channel_counterexample:
  "operation (ipc_rf_channel example_irq_state 0) = IPC_SEND_OPERATION
   \<and> map_sum id trace (columbus_ipc_irq_handler example_platform 0 example_irq_state)
       = Inr [Complete 0, IoWrite RFTOA7IPCACK 1]"
  by (simp add: example_irq_state_eq columbus_ipc_irq_handler_def IPC_BUG_def Let_def iowrite32_def
      boot_state_def example_platform_def)

lemma irq_handler_unfold:
  assumes "0 \<le> n" and "n < 16"
  shows "columbus_ipc_irq_handler cfg n s =
           (if DEBUG cfg \<and> \<not> irq_slot_ok s n then Inl Bug else Inr (irq_effect n s))"
proof (cases "n < 8")
  case True
  with assms show ?thesis
    by (simp add: columbus_ipc_irq_handler_def irq_effect_def irq_slot_ok_def Let_def
        iowrite32_def IPC_BUG_def)
next
  case False
  with assms show ?thesis
    by (simp add: columbus_ipc_irq_handler_def irq_effect_def irq_slot_ok_def Let_def
        iowrite32_def IPC_BUG_def)
qed

text \<open>
  C9, amended.  The interrupt handler does the same for a send-direction channel as for a
  receive-direction channel (the direction selects the log message only): it signals the
  completion slot of the interrupt line and then writes this channel's acknowledgment bit
  to the ack register of the partner that raised the interrupt; nothing else changes.  It
  returns for every line 0..15 in a build without DEBUG, and in a DEBUG build when the slot
  passes the handler's assertions.
\<close>

theorem irq_handler_completes_and_acks:
  "(0 \<le> n \<and> n < 16 \<and> (DEBUG cfg \<longrightarrow> irq_slot_ok s n) \<longrightarrow>
      columbus_ipc_irq_handler cfg n s = Inr (irq_effect n s))
   \<and> (columbus_ipc_irq_handler cfg n s = Inr s' \<longrightarrow> s' = irq_effect n s)"
proof (intro conjI impI)
  assume "0 \<le> n \<and> n < 16 \<and> (DEBUG cfg \<longrightarrow> irq_slot_ok s n)"
  then show "columbus_ipc_irq_handler cfg n s = Inr (irq_effect n s)"
    by (simp add: irq_handler_unfold)
next
  assume a: "columbus_ipc_irq_handler cfg n s = Inr s'"
  have lo: "\<not> n < 0"
  proof
    assume "n < 0"
    then have "columbus_ipc_irq_handler cfg n s = (if DEBUG cfg then Inl Bug else Inl OutOfModel)"
      by (simp add: columbus_ipc_irq_handler_def IPC_BUG_def)
    with a show False by (simp split: if_splits)
  qed
  have hi: "\<not> 16 \<le> n"
  proof
    assume "16 \<le> n"
    then have "columbus_ipc_irq_handler cfg n s = (if DEBUG cfg then Inl Bug else Inl OutOfModel)"
      by (simp add: columbus_ipc_irq_handler_def IPC_BUG_def)
    with a show False by (simp split: if_splits)
  qed
  have "columbus_ipc_irq_handler cfg n s =
           (if DEBUG cfg \<and> \<not> irq_slot_ok s n then Inl Bug else Inr (irq_effect n s))"
    by (rule irq_handler_unfold) (use lo hi in simp_all)
  with a show "s' = irq_effect n s"
    by (cases "DEBUG cfg \<and> \<not> irq_slot_ok s n") simp_all
qed

theorem irq_handler_completes_and_acks_witness:
  "(0::int) \<le> 0 \<and> (0::int) < 16 \<and> irq_slot_ok example_irq_state 0
   \<and> columbus_ipc_irq_handler example_platform 0 example_irq_state
       = Inr (irq_effect 0 example_irq_state)
   \<and> trace (irq_effect 0 example_irq_state) = [Complete 0, IoWrite RFTOA7IPCACK 1]"
proof -
  have ok: "irq_slot_ok example_irq_state 0"
    by (simp add: irq_slot_ok_def example_irq_state_eq boot_state_def)
  then have h: "(0::int) \<le> 0 \<and> (0::int) < 16 \<and> (DEBUG example_platform \<longrightarrow> irq_slot_ok example_irq_state 0)"
    by simp
  have r: "columbus_ipc_irq_handler example_platform 0 example_irq_state
       = Inr (irq_effect 0 example_irq_state)"
    using irq_handler_completes_and_acks[of 0 example_platform example_irq_state] h by blast
  have "trace (irq_effect 0 example_irq_state) = [Complete 0, IoWrite RFTOA7IPCACK 1]"
    by (simp add: irq_effect_def example_irq_state_eq boot_state_def)
  with r ok show ?thesis by simp
qed

lemma example_recv_state_eq:
  "example_recv_state = boot_state\<lparr>ipc_rf_channel := (ipc_rf_channel boot_state)
     (0 := \<lparr>magic_1 = 0x49504331, used = 1, partner = 0, operation = 1, mode = 1,
             magic_2 = 0x49504332\<rparr>)\<rparr>"
  by (simp add: example_recv_state_def columbus_ipc_get_channel_def get_lock_def get_channels_def
      get_max_channel_def get_free_channel_def IPC_BUG_def scan_free_channel.simps
      channels_of_def channels_update_def boot_state_def zero_channel_def set_ipc_channel_def)

lemma example_recv_c2n: "channel2num example_platform (RF_TABLE, 0) example_recv_state = Inr 0"
  by (simp add: example_recv_state_eq channel2num_def channels_of_def boot_state_def
      get_channels_def get_max_channel_def IPC_BUG_def Let_def)

lemma example_recv_wait:
  "receive_wait example_platform (RF_TABLE, 0) 0 (example_recv_input\<lparr>kmalloc_ok := k, data1 := d\<rparr>)
     example_recv_state
   = Inr (iowrite32 1 RFTOA7IPCACK example_recv_state)"
  by (simp add: example_recv_state_eq receive_wait_def channels_of_def boot_state_def
      example_recv_input_def IPC_BUG_def Let_def)

lemma example_recv_valid:
  "is_valid_address example_platform (RF_TABLE, 0) 0x72600000
     (iowrite32 1 RFTOA7IPCACK example_recv_state) = Inr 1"
  "phy2vir example_platform (address_from_a7_view example_platform (RF_TABLE, 0) 0x72600000
     (iowrite32 1 RFTOA7IPCACK example_recv_state)) = Inr (sram example_platform)"
  by (simp_all add: example_recv_state_eq is_valid_address_def phy2vir_def address_from_a7_view_def
      channels_of_def boot_state_def iowrite32_def IPC_BUG_def Let_def example_platform_def)

text \<open>
  C6 (as stated) fails on the code where \<^verbatim>\<open>kmalloc\<close> fails: the header says DataReady
  and carries the EndOfMessage marker, yet nothing is copied and no buffer is returned;
  the function returns \<^verbatim>\<open>-ENOMEM\<close> and leaves the out-parameters alone.
\<close>

theorem receive_enomem_counterexample:
  "command example_recv_input = IPC_DATA_READ example_platform
   \<and> drop_bit 16 (data1 example_recv_input) = IPC_END_MSG example_platform
   \<and> map_sum id fst (columbus_ipc_receive_message example_platform (RF_TABLE, 0)
         example_recv_input example_recv_state) = Inr (- ENOMEM)
   \<and> map_sum id (fst \<circ> snd) (columbus_ipc_receive_message example_platform (RF_TABLE, 0)
         example_recv_input example_recv_state) = Inr None"
proof -
  have w: "receive_wait example_platform (RF_TABLE, 0) 0 example_recv_input example_recv_state
     = Inr (iowrite32 1 RFTOA7IPCACK example_recv_state)"
    using example_recv_wait[where k=False and d="0xFF0000"] by (simp add: example_recv_input_def)
  have c: "command example_recv_input = IPC_DATA_READ example_platform"
    "drop_bit 16 (data1 example_recv_input) = IPC_END_MSG example_platform"
    "address example_recv_input = 0x72600000" "\<not> kmalloc_ok example_recv_input"
    "data0 example_recv_input = 4"
    by (simp_all add: example_recv_input_def example_platform_def)
  show ?thesis
    by (simp add: columbus_ipc_receive_message_def example_recv_c2n w c example_recv_valid
        IPC_BUG_def)
qed

lemma receive_unfold:
  assumes "channel2num cfg channel s = Inr n"
    and "receive_wait cfg channel n inp s = Inr s2"
    and "command inp = IPC_DATA_READ cfg"
    and "is_valid_address cfg channel (address inp) s2 = Inr v" and "\<not> IPC_BUG cfg (v = 0)"
    and "phy2vir cfg (address_from_a7_view cfg channel (address inp) s2) = Inr msg"
    and "\<not> IPC_BUG cfg (data0 inp > 0x8000)"
  shows "columbus_ipc_receive_message cfg channel inp s =
     (if \<not> kmalloc_ok inp then Inr (- ENOMEM, None, s2)
      else if drop_bit 16 (data1 inp) = IPC_END_MSG cfg then
        (if \<not> in_sram cfg msg (unat (data0 inp)) then Inl OutOfModel
         else Inr (sint (data0 inp),
                   Some (Buffer (map Some (read_bytes msg (unat (data0 inp)) (shared_ram s2))),
                         data0 inp), s2))
      else Inr (sint (data0 inp), Some (Buffer (replicate (unat (data0 inp)) None), data0 inp), s2))"
  using assms by (simp add: columbus_ipc_receive_message_def Let_def)

lemma receive_returning:
  assumes "columbus_ipc_receive_message cfg channel inp s = Inr (ret, out, s')"
    and "command inp = IPC_DATA_READ cfg"
  shows "(\<not> kmalloc_ok inp \<and> ret = - ENOMEM \<and> out = None)
       \<or> (kmalloc_ok inp \<and> ret = sint (data0 inp)
           \<and> (\<exists>msg. out = Some (Buffer (if drop_bit 16 (data1 inp) = IPC_END_MSG cfg
                                         then map Some (read_bytes msg (unat (data0 inp)) (shared_ram s'))
                                         else replicate (unat (data0 inp)) None),
                                 data0 inp)))"
proof -
  from assms(1) obtain n where n: "channel2num cfg channel s = Inr n"
    by (cases "channel2num cfg channel s") (simp_all add: columbus_ipc_receive_message_def)
  from assms(1) n obtain s2 where w: "receive_wait cfg channel n inp s = Inr s2"
    by (cases "receive_wait cfg channel n inp s") (simp_all add: columbus_ipc_receive_message_def)
  from assms n w obtain v where v: "is_valid_address cfg channel (address inp) s2 = Inr v"
    by (cases "is_valid_address cfg channel (address inp) s2")
       (simp_all add: columbus_ipc_receive_message_def)
  from assms n w v have nb: "\<not> IPC_BUG cfg (v = 0)"
    by (auto simp: columbus_ipc_receive_message_def)
  from assms n w v nb obtain msg where
    m: "phy2vir cfg (address_from_a7_view cfg channel (address inp) s2) = Inr msg"
    by (cases "phy2vir cfg (address_from_a7_view cfg channel (address inp) s2)")
       (simp_all add: columbus_ipc_receive_message_def Let_def)
  from assms n w v nb m have nb2: "\<not> IPC_BUG cfg (data0 inp > 0x8000)"
    by (auto simp: columbus_ipc_receive_message_def Let_def)
  note u = receive_unfold[OF n w assms(2) v nb m nb2]
  from assms(1) show ?thesis
    unfolding u by (auto split: if_splits)
qed

text \<open>
  C6, amended.  When the command register reads DataReady and \<^verbatim>\<open>kmalloc\<close> succeeds, the
  payload is copied from shared memory into the returned buffer if and only if the high
  half of the page-index header word equals the EndOfMessage marker; when the marker is
  absent the function still returns the freshly allocated buffer with the advertised
  length, no byte of it written.  When \<^verbatim>\<open>kmalloc\<close> fails the function returns
  \<^verbatim>\<open>-ENOMEM\<close> and writes neither out-parameter, whatever the marker.  The second half
  of the theorem says that these are the only ways the function returns on DataReady.
\<close>

theorem receive_copies_iff_end_marker:
  "(channel2num cfg channel s = Inr n \<and> receive_wait cfg channel n inp s = Inr s2
      \<and> command inp = IPC_DATA_READ cfg
      \<and> is_valid_address cfg channel (address inp) s2 = Inr v \<and> \<not> IPC_BUG cfg (v = 0)
      \<and> phy2vir cfg (address_from_a7_view cfg channel (address inp) s2) = Inr msg
      \<and> \<not> IPC_BUG cfg (data0 inp > 0x8000) \<longrightarrow>
        (\<not> kmalloc_ok inp \<longrightarrow>
           columbus_ipc_receive_message cfg channel inp s = Inr (- ENOMEM, None, s2))
      \<and> (kmalloc_ok inp \<and> drop_bit 16 (data1 inp) = IPC_END_MSG cfg
           \<and> in_sram cfg msg (unat (data0 inp)) \<longrightarrow>
           columbus_ipc_receive_message cfg channel inp s =
             Inr (sint (data0 inp),
                  Some (Buffer (map Some (read_bytes msg (unat (data0 inp)) (shared_ram s2))),
                        data0 inp), s2))
      \<and> (kmalloc_ok inp \<and> drop_bit 16 (data1 inp) \<noteq> IPC_END_MSG cfg \<longrightarrow>
           columbus_ipc_receive_message cfg channel inp s =
             Inr (sint (data0 inp),
                  Some (Buffer (replicate (unat (data0 inp)) None), data0 inp), s2)))
   \<and> (columbus_ipc_receive_message cfg channel inp s = Inr (ret, out, s')
        \<and> command inp = IPC_DATA_READ cfg \<longrightarrow>
        (\<not> kmalloc_ok inp \<and> ret = - ENOMEM \<and> out = None)
        \<or> (kmalloc_ok inp \<and> ret = sint (data0 inp)
            \<and> (\<exists>msg. out = Some (Buffer (if drop_bit 16 (data1 inp) = IPC_END_MSG cfg
                                          then map Some (read_bytes msg (unat (data0 inp)) (shared_ram s'))
                                          else replicate (unat (data0 inp)) None),
                                  data0 inp))))"
proof (intro conjI impI)
  assume a: "channel2num cfg channel s = Inr n \<and> receive_wait cfg channel n inp s = Inr s2
      \<and> command inp = IPC_DATA_READ cfg
      \<and> is_valid_address cfg channel (address inp) s2 = Inr v \<and> \<not> IPC_BUG cfg (v = 0)
      \<and> phy2vir cfg (address_from_a7_view cfg channel (address inp) s2) = Inr msg
      \<and> \<not> IPC_BUG cfg (data0 inp > 0x8000)"
  then have u: "columbus_ipc_receive_message cfg channel inp s =
     (if \<not> kmalloc_ok inp then Inr (- ENOMEM, None, s2)
      else if drop_bit 16 (data1 inp) = IPC_END_MSG cfg then
        (if \<not> in_sram cfg msg (unat (data0 inp)) then Inl OutOfModel
         else Inr (sint (data0 inp),
                   Some (Buffer (map Some (read_bytes msg (unat (data0 inp)) (shared_ram s2))),
                         data0 inp), s2))
      else Inr (sint (data0 inp), Some (Buffer (replicate (unat (data0 inp)) None), data0 inp), s2))"
    by (intro receive_unfold[of cfg channel s n inp s2 v msg]) blast+
  { assume "\<not> kmalloc_ok inp"
    then show "columbus_ipc_receive_message cfg channel inp s = Inr (- ENOMEM, None, s2)"
      by (simp add: u) }
  { assume "kmalloc_ok inp \<and> drop_bit 16 (data1 inp) = IPC_END_MSG cfg
           \<and> in_sram cfg msg (unat (data0 inp))"
    then show "columbus_ipc_receive_message cfg channel inp s =
             Inr (sint (data0 inp),
                  Some (Buffer (map Some (read_bytes msg (unat (data0 inp)) (shared_ram s2))),
                        data0 inp), s2)"
      by (simp add: u) }
  { assume "kmalloc_ok inp \<and> drop_bit 16 (data1 inp) \<noteq> IPC_END_MSG cfg"
    then show "columbus_ipc_receive_message cfg channel inp s =
             Inr (sint (data0 inp),
                  Some (Buffer (replicate (unat (data0 inp)) None), data0 inp), s2)"
      by (simp add: u) }
next
  assume "columbus_ipc_receive_message cfg channel inp s = Inr (ret, out, s')
        \<and> command inp = IPC_DATA_READ cfg"
  then show "(\<not> kmalloc_ok inp \<and> ret = - ENOMEM \<and> out = None)
        \<or> (kmalloc_ok inp \<and> ret = sint (data0 inp)
            \<and> (\<exists>msg. out = Some (Buffer (if drop_bit 16 (data1 inp) = IPC_END_MSG cfg
                                          then map Some (read_bytes msg (unat (data0 inp)) (shared_ram s'))
                                          else replicate (unat (data0 inp)) None),
                                  data0 inp)))"
    using receive_returning[of cfg channel inp s ret out s'] by blast
qed

theorem receive_copies_iff_end_marker_witness:
  "channel2num example_platform (RF_TABLE, 0) example_recv_state = Inr 0
   \<and> command (example_recv_input\<lparr>kmalloc_ok := True, data1 := 0\<rparr>) = IPC_DATA_READ example_platform
   \<and> drop_bit 16 (data1 (example_recv_input\<lparr>kmalloc_ok := True, data1 := 0\<rparr>))
         \<noteq> IPC_END_MSG example_platform
   \<and> columbus_ipc_receive_message example_platform (RF_TABLE, 0)
         (example_recv_input\<lparr>kmalloc_ok := True, data1 := 0\<rparr>) example_recv_state
       = Inr (4, Some (Buffer [None, None, None, None], 4),
              iowrite32 1 RFTOA7IPCACK example_recv_state)"
proof -
  let ?inp = "example_recv_input\<lparr>kmalloc_ok := True, data1 := 0\<rparr>"
  let ?s2 = "iowrite32 1 RFTOA7IPCACK example_recv_state"
  have f: "command ?inp = IPC_DATA_READ example_platform"
    "drop_bit 16 (data1 ?inp) \<noteq> IPC_END_MSG example_platform"
    "address ?inp = 0x72600000" "kmalloc_ok ?inp" "data0 ?inp = 4"
    by (simp_all add: example_recv_input_def example_platform_def)
  have h: "channel2num example_platform (RF_TABLE, 0) example_recv_state = Inr 0
      \<and> receive_wait example_platform (RF_TABLE, 0) 0 ?inp example_recv_state = Inr ?s2
      \<and> command ?inp = IPC_DATA_READ example_platform
      \<and> is_valid_address example_platform (RF_TABLE, 0) (address ?inp) ?s2 = Inr 1
      \<and> \<not> IPC_BUG example_platform ((1::int) = 0)
      \<and> phy2vir example_platform
            (address_from_a7_view example_platform (RF_TABLE, 0) (address ?inp) ?s2)
          = Inr (sram example_platform)
      \<and> \<not> IPC_BUG example_platform (data0 ?inp > 0x8000)"
    using example_recv_c2n example_recv_wait[where k=True and d=0] example_recv_valid
    by (simp add: f IPC_BUG_def)
  from receive_copies_iff_end_marker[of example_platform "(RF_TABLE, 0)" example_recv_state 0 ?inp
        ?s2 1 "sram example_platform"] h f(2,4)
  have "columbus_ipc_receive_message example_platform (RF_TABLE, 0) ?inp example_recv_state =
          Inr (sint (data0 ?inp), Some (Buffer (replicate (unat (data0 ?inp)) None), data0 ?inp), ?s2)"
    by blast
  note main = this
  have "columbus_ipc_receive_message example_platform (RF_TABLE, 0) ?inp example_recv_state
       = Inr (4, Some (Buffer [None, None, None, None], 4), ?s2)"
    if "columbus_ipc_receive_message example_platform (RF_TABLE, 0) ?inp example_recv_state =
          Inr (sint (data0 ?inp), Some (Buffer (replicate (unat (data0 ?inp)) None), data0 ?inp), ?s2)"
  proof -
    have u: "unat (4 :: 32 word) = 4" by simp
    have r: "replicate 4 None = [None, None, None, None :: 8 word option]"
      by (simp add: numeral_eq_Suc)
    from that show ?thesis by (simp only: f(5) u r) simp
  qed
  from this[OF main] example_recv_c2n f(1,2) show ?thesis by blast
qed








end
